theory Spec2Isabelle
  imports
    Main
    "HOL-Library.Char_ord"
    "HOL-Library.List_Lexorder"
    "HOL-Library.Product_Lexorder"
    "HOL-Library.Option_ord"
begin

section \<open>The N2 viewer data of \<^verbatim>\<open>openmdao/devtools/problem_viewer/problem_viewer.py\<close>\<close>

text \<open>
  A shallow embedding of \<^verbatim>\<open>_get_var_dict\<close>, \<^verbatim>\<open>_get_tree_dict\<close>,
  \<^verbatim>\<open>_get_declare_partials\<close> and \<^verbatim>\<open>_get_viewer_data\<close>. Python names that
  start with an underscore lose it (\<^verbatim>\<open>_get_tree_dict\<close> is \<open>get_tree_dict\<close>).
  Path names are Python strings, compared code point by code point: \<open>string\<close> with the
  lexicographic order of \<open>List_Lexorder\<close> over \<open>Char_ord\<close>.
\<close>

subsection \<open>Python values and exceptions\<close>

text \<open>
  Values the viewer only passes on (option values, variable values, design variables).
  \<open>PyInstance c\<close> is an object of class \<open>c\<close> whose content is never read.
\<close>

datatype pyobj =
    PyNone
  | PyBool bool
  | PyInt int
  | PyStr string
  | PyList "pyobj list"
  | PyInstance string

text \<open>\<^verbatim>\<open>type(v).__name__\<close>\<close>

fun type_name :: "pyobj \<Rightarrow> string" where
  "type_name PyNone = ''NoneType''"
| "type_name (PyBool b) = ''bool''"
| "type_name (PyInt i) = ''int''"
| "type_name (PyStr s) = ''str''"
| "type_name (PyList xs) = ''list''"
| "type_name (PyInstance c) = c"

text \<open>
  The exceptions the viewer raises. A \<^verbatim>\<open>KeyError\<close> carries no key: the sets of
  path names are iterated in an order the source does not fix. \<open>IOError\<close> stands for
  whatever the case reader raises on a file it cannot read.
\<close>

datatype error =
    KeyError
  | ValueError string
  | TypeError string
  | IOError

text \<open>\<^verbatim>\<open>d[k]\<close> on a dict: a missing key raises \<^verbatim>\<open>KeyError\<close>.\<close>

definition getitem :: "(string \<rightharpoonup> 'v) \<Rightarrow> string \<Rightarrow> error + 'v" where
  "getitem d k = (case d k of None \<Rightarrow> Inl KeyError | Some v \<Rightarrow> Inr v)"

text \<open>A loop that appends \<open>f x\<close> for each \<open>x\<close> and stops at the first exception.\<close>

fun map_raise :: "('a \<Rightarrow> error + 'b) \<Rightarrow> 'a list \<Rightarrow> error + 'b list" where
  "map_raise f [] = Inr []"
| "map_raise f (x # xs) =
     (case f x of
        Inl e \<Rightarrow> Inl e
      | Inr y \<Rightarrow> (case map_raise f xs of Inl e \<Rightarrow> Inl e | Inr ys \<Rightarrow> Inr (y # ys)))"

subsection \<open>The model: systems, their variables and their communicators\<close>

datatype var_typ = Input | Output

text \<open>A variable's metadata dict; the viewer reads its \<^verbatim>\<open>'value'\<close> entry only.\<close>

type_synonym meta = "string \<rightharpoonup> pyobj"

text \<open>The dict \<^verbatim>\<open>_get_var_dict\<close> returns; \<^verbatim>\<open>implicit\<close> is set for outputs only.\<close>

record var_dict =
  vd_name :: string
  vd_type :: string
  vd_implicit :: "bool option"
  vd_dtype :: string

text \<open>
  The dict \<^verbatim>\<open>_get_tree_dict\<close> returns for a system, without its \<^verbatim>\<open>children\<close>;
  the children of a component are variable dicts, those of a group are tree dicts.
\<close>

record sys_dict =
  td_name :: string
  td_type :: string
  td_subsystem_type :: string
  td_is_parallel :: bool
  td_component_type :: "string option"
  td_linear_solver :: string
  td_nonlinear_solver :: string

datatype tree_dict = VarDict var_dict | TreeDict sys_dict "tree_dict list"

text \<open>
  \<^verbatim>\<open>system.comm\<close>: size, rank, and what the collective \<^verbatim>\<open>allgather\<close> returns
  on this process for the list it contributes (the lists of all processes, by rank).
\<close>

record comm =
  comm_size :: nat
  comm_rank :: nat
  comm_allgather :: "tree_dict list \<Rightarrow> tree_dict list list"

text \<open>
  The classes \<^verbatim>\<open>_get_tree_dict\<close> tests a component against with \<^verbatim>\<open>isinstance\<close>,
  as the set of those the component is an instance of.
\<close>

datatype comp_class =
    ImplicitComponent
  | ExecComp
  | MetaModelStructuredComp
  | MetaModelUnStructuredComp
  | IndepVarComp
  | ExplicitComponent

text \<open>
  A component, by the attributes the viewer reads. A solver attribute is \<open>None\<close> when
  it is falsy and the solver's \<^verbatim>\<open>SOLVER\<close> label otherwise. \<open>c_overrides m\<close> is
  \<^verbatim>\<open>overrides_method(m, system, ImplicitComponent)\<close>. The dicts that are iterated
  are association lists in iteration order.
\<close>

record component =
  c_name :: string
  c_pathname :: string
  c_classes :: "comp_class set"
  c_comm :: comm
  c_linear_solver :: "string option"
  c_nonlinear_solver :: "string option"
  c_overrides :: "string \<Rightarrow> bool"
  c_var_abs_names :: "var_typ \<Rightarrow> string list"
  c_var_discrete :: "var_typ \<Rightarrow> (string \<times> meta) list"
  c_var_abs2meta :: "string \<rightharpoonup> meta"
  c_var_abs2prom :: "var_typ \<Rightarrow> (string \<rightharpoonup> string)"
  c_subjacs_info :: "((string \<times> string) \<times> pyobj) list"

text \<open>
  A group, by the attributes the viewer reads or assigns to.
  \<open>g_conn_global_abs_in2out\<close> is the dict \<^verbatim>\<open>_conn_global_abs_in2out\<close>
  from absolute input name to absolute output name (or \<^verbatim>\<open>None\<close>), in iteration order.
\<close>

record group =
  g_name :: string
  g_pathname :: string
  g_is_parallel_group :: bool
  g_comm :: comm
  g_linear_solver :: "string option"
  g_nonlinear_solver :: "string option"
  g_conn_global_abs_in2out :: "(string \<times> string option) list"
  g_var_abs2prom :: "var_typ \<Rightarrow> (string \<rightharpoonup> string)"

text \<open>A system is a component or a group with its \<^verbatim>\<open>_subsystems_myproc\<close>.\<close>

datatype system = Component component | Group group "system list"

fun sys_comm :: "system \<Rightarrow> comm" where
  "sys_comm (Component c) = c_comm c"
| "sys_comm (Group g subs) = g_comm g"

subsection \<open>\<^verbatim>\<open>_get_var_dict\<close>\<close>

definition get_var_dict :: "component \<Rightarrow> var_typ \<Rightarrow> string \<Rightarrow> error + var_dict" where
  "get_var_dict system typ name =
     (case (case map_of (c_var_discrete system typ) name of
              Some meta \<Rightarrow> Inr (meta, name)
            | None \<Rightarrow>
                (case getitem (c_var_abs2meta system) name of
                   Inl e \<Rightarrow> Inl e
                 | Inr meta \<Rightarrow>
                     (case getitem (c_var_abs2prom system typ) name of
                        Inl e \<Rightarrow> Inl e
                      | Inr prom \<Rightarrow> Inr (meta, prom)))) of
        Inl e \<Rightarrow> Inl e
      | Inr (meta, name') \<Rightarrow>
          (case getitem meta ''value'' of
             Inl e \<Rightarrow> Inl e
           | Inr v \<Rightarrow>
               Inr \<lparr> vd_name = name',
                     vd_type = (case typ of Input \<Rightarrow> ''param'' | Output \<Rightarrow> ''unknown''),
                     vd_implicit =
                       (case typ of
                          Input \<Rightarrow> None
                        | Output \<Rightarrow> Some (ImplicitComponent \<in> c_classes system)),
                     vd_dtype = type_name v \<rparr>))"

subsection \<open>\<^verbatim>\<open>_get_tree_dict\<close>\<close>

text \<open>The \<^verbatim>\<open>isinstance\<close> chain of lines 70 to 81.\<close>

definition component_type :: "component \<Rightarrow> string option" where
  "component_type system =
     (if ImplicitComponent \<in> c_classes system then Some ''implicit''
      else if ExecComp \<in> c_classes system then Some ''exec''
      else if MetaModelStructuredComp \<in> c_classes system
              \<or> MetaModelUnStructuredComp \<in> c_classes system then Some ''metamodel''
      else if IndepVarComp \<in> c_classes system then Some ''indep''
      else if ExplicitComponent \<in> c_classes system then Some ''explicit''
      else None)"

text \<open>
  The variables of a component in the order lines 87 to 92 visit them: for each of
  \<^verbatim>\<open>'input'\<close> and \<^verbatim>\<open>'output'\<close>, the names of \<^verbatim>\<open>_var_abs_names[typ]\<close> and then
  the keys of \<^verbatim>\<open>_var_discrete[typ]\<close>.
\<close>

definition leaf_vars :: "component \<Rightarrow> (var_typ \<times> string) list" where
  "leaf_vars system =
     concat (map (\<lambda>typ. map (Pair typ) (c_var_abs_names system typ)
                        @ map (Pair typ) (map fst (c_var_discrete system typ)))
                 [Input, Output])"

text \<open>Lines 113 to 133 for a component.\<close>

definition comp_linear_solver :: "component \<Rightarrow> string" where
  "comp_linear_solver system =
     (if ImplicitComponent \<in> c_classes system
      then (if c_overrides system ''solve_linear'' then ''solve_linear'' else '''')
      else (case c_linear_solver system of Some s \<Rightarrow> s | None \<Rightarrow> ''''))"

definition comp_nonlinear_solver :: "component \<Rightarrow> string" where
  "comp_nonlinear_solver system =
     (if ImplicitComponent \<in> c_classes system
      then (if c_overrides system ''solve_nonlinear'' then ''solve_nonlinear'' else '''')
      else (case c_nonlinear_solver system of Some s \<Rightarrow> s | None \<Rightarrow> ''''))"

text \<open>Lines 137 to 139: a system without a name is the root.\<close>

definition relabel_root :: "sys_dict \<Rightarrow> sys_dict" where
  "relabel_root d =
     (if td_name d = '''' then d\<lparr> td_name := ''root'', td_type := ''root'' \<rparr> else d)"

text \<open>
  Lines 102 to 111: with more than one process, a process whose first subsystem is not
  at rank 0 of its communicator contributes no children, and the children are those all
  processes contributed.
\<close>

definition gather_children :: "group \<Rightarrow> system list \<Rightarrow> tree_dict list \<Rightarrow> tree_dict list" where
  "gather_children g subs children =
     (if comm_size (g_comm g) > 1
      then concat (comm_allgather (g_comm g)
             (case subs of
                [] \<Rightarrow> children
              | s # ss \<Rightarrow> (if comm_rank (sys_comm s) \<noteq> 0 then [] else children)))
      else children)"

text \<open>
  \<open>orders\<close> is \<^verbatim>\<open>component_execution_orders\<close> and \<open>idx\<close> is
  \<^verbatim>\<open>component_execution_index[0]\<close>; both are returned as the call leaves them.
  \<open>get_tree_dicts\<close> is the list comprehension of line 100.
\<close>

fun get_tree_dict ::
    "system \<Rightarrow> (string \<rightharpoonup> nat) \<Rightarrow> nat \<Rightarrow> bool
       \<Rightarrow> error + (tree_dict \<times> (string \<rightharpoonup> nat) \<times> nat)"
  and get_tree_dicts ::
    "system list \<Rightarrow> (string \<rightharpoonup> nat) \<Rightarrow> nat \<Rightarrow> bool
       \<Rightarrow> error + (tree_dict list \<times> (string \<rightharpoonup> nat) \<times> nat)"
where
  "get_tree_dict (Component c) orders idx is_parallel =
     (case map_raise (\<lambda>(typ, name). get_var_dict c typ name) (leaf_vars c) of
        Inl e \<Rightarrow> Inl e
      | Inr children \<Rightarrow>
          Inr (TreeDict
                 (relabel_root
                    \<lparr> td_name = c_name c, td_type = ''subsystem'',
                      td_subsystem_type = ''component'', td_is_parallel = is_parallel,
                      td_component_type = component_type c,
                      td_linear_solver = comp_linear_solver c,
                      td_nonlinear_solver = comp_nonlinear_solver c \<rparr>)
                 (map VarDict children),
               orders(c_pathname c \<mapsto> idx), idx + 1))"
| "get_tree_dict (Group g subs) orders idx is_parallel =
     (case get_tree_dicts subs orders idx (g_is_parallel_group g \<or> is_parallel) of
        Inl e \<Rightarrow> Inl e
      | Inr (children, orders', idx') \<Rightarrow>
          Inr (TreeDict
                 (relabel_root
                    \<lparr> td_name = g_name g, td_type = ''subsystem'',
                      td_subsystem_type = ''group'',
                      td_is_parallel = (g_is_parallel_group g \<or> is_parallel),
                      td_component_type = None,
                      td_linear_solver = (case g_linear_solver g of Some s \<Rightarrow> s | None \<Rightarrow> ''''),
                      td_nonlinear_solver =
                        (case g_nonlinear_solver g of Some s \<Rightarrow> s | None \<Rightarrow> '''') \<rparr>)
                 (gather_children g subs children),
               orders', idx'))"
| "get_tree_dicts [] orders idx is_parallel = Inr ([], orders, idx)"
| "get_tree_dicts (s # ss) orders idx is_parallel =
     (case get_tree_dict s orders idx is_parallel of
        Inl e \<Rightarrow> Inl e
      | Inr (t, orders', idx') \<Rightarrow>
          (case get_tree_dicts ss orders' idx' is_parallel of
             Inl e \<Rightarrow> Inl e
           | Inr (ts, orders'', idx'') \<Rightarrow> Inr (t # ts, orders'', idx'')))"

subsection \<open>\<^verbatim>\<open>_get_declare_partials\<close>\<close>

text \<open>\<^verbatim>\<open>recurse_get_partials\<close>, returning what it appends to \<^verbatim>\<open>dpl\<close>.\<close>

fun get_declare_partials :: "system \<Rightarrow> string list" where
  "get_declare_partials (Component c) =
     map (\<lambda>(abs_key, meta). fst abs_key @ '' > '' @ snd abs_key) (c_subjacs_info c)"
| "get_declare_partials (Group g subs) = concat (map get_declare_partials subs)"

subsection \<open>The data source and the collaborators of \<^verbatim>\<open>_get_viewer_data\<close>\<close>

text \<open>
  A driver: its class name, whether it is a \<^verbatim>\<open>DOEDriver\<close>, its options, and its
  \<^verbatim>\<open>opt_settings\<close> attribute when \<^verbatim>\<open>dir(driver)\<close> lists one.
\<close>

record driver =
  drv_class_name :: string
  drv_is_doe :: bool
  drv_options :: "(string \<times> pyobj) list"
  drv_opt_settings :: "pyobj option"

record problem =
  p_model :: system
  p_driver :: driver

text \<open>
  The argument of \<^verbatim>\<open>_get_viewer_data\<close>: a \<^verbatim>\<open>Problem\<close>, a system, a file name, or
  an object of any other kind.
\<close>

datatype data_source =
    Problem problem
  | System system
  | Filename string
  | OtherObject pyobj

text \<open>An entry of \<^verbatim>\<open>connections_list\<close>; \<open>None\<close> is a dict without \<^verbatim>\<open>cycle_arrows\<close>.\<close>

record connection =
  conn_src :: string
  conn_tgt :: string
  conn_cycle_arrows :: "(nat \<times> nat) list option"

text \<open>The dict under \<^verbatim>\<open>'driver'\<close>; \<open>None\<close> and \<open>PyNone\<close> are Python's \<^verbatim>\<open>None\<close>.\<close>

record driver_dict =
  dd_name :: "string option"
  dd_type :: "string option"
  dd_options :: "(string \<times> pyobj) list option"
  dd_opt_settings :: pyobj

datatype jvalue =
    JTree tree_dict
  | JStrings "string list"
  | JConnections "connection list"
  | JAbs2prom "var_typ \<Rightarrow> (string \<rightharpoonup> string)"
  | JDriver driver_dict
  | JObj pyobj

text \<open>The dict \<^verbatim>\<open>_get_viewer_data\<close> returns, by its keys.\<close>

type_synonym data_dict = "string \<rightharpoonup> jvalue"

text \<open>
  A directed graph of \<^verbatim>\<open>networkx\<close>, by its edges in iteration order. The edges of
  \<^verbatim>\<open>G.subgraph(nodes)\<close> are the edges of \<^verbatim>\<open>G\<close> with both ends in \<^verbatim>\<open>nodes\<close>.
  The order in which \<^verbatim>\<open>networkx\<close> enumerates the edges of a subgraph view is its own
  (it may follow the iteration order of the node set given); here they come in the order
  of \<^verbatim>\<open>G\<close>. What is proved of a returned dict below depends on the set of these edges
  only, never on their order; where an example shows the arrows before sorting, their
  order is that of this enumeration.
\<close>

type_synonym graph = "(string \<times> string) list"

definition subgraph_edges :: "graph \<Rightarrow> string set \<Rightarrow> graph" where
  "subgraph_edges G nodes = filter (\<lambda>(u, v). u \<in> nodes \<and> v \<in> nodes) G"

text \<open>
  What the source calls and this file does not hold: the system graph of the root
  group (\<^verbatim>\<open>compute_sys_graph(comps_only=True)\<close>), \<^verbatim>\<open>networkx\<close>'s
  \<^verbatim>\<open>strongly_connected_components\<close>, \<^verbatim>\<open>get_design_vars\<close>, \<^verbatim>\<open>get_responses\<close>,
  and \<^verbatim>\<open>CaseReader(name, pre_load=False).problem_metadata\<close>. They are parameters.

  The three methods of the root group are Python methods of a mutable object: beside
  the value a method returns, it may assign to attributes of the group and of the
  systems below it. \<open>after_compute_sys_graph\<close>, \<open>after_get_design_vars\<close> and
  \<open>after_get_responses\<close> give the root group as the call of the method leaves it, as
  far as the attributes held in \<open>system\<close> go. Nothing is assumed of them.
\<close>

record externals =
  compute_sys_graph :: "system \<Rightarrow> graph"
  after_compute_sys_graph :: "system \<Rightarrow> system"
  strongly_connected_components :: "graph \<Rightarrow> string set list"
  get_design_vars :: "system \<Rightarrow> pyobj"
  after_get_design_vars :: "system \<Rightarrow> system"
  get_responses :: "system \<Rightarrow> pyobj"
  after_get_responses :: "system \<Rightarrow> system"
  problem_metadata :: "string \<Rightarrow> error + data_dict"

subsection \<open>The connection loop of \<^verbatim>\<open>_get_viewer_data\<close>\<close>

text \<open>\<^verbatim>\<open>s.rsplit('.', 1)[0]\<close>: \<open>s\<close> up to its last dot, or \<open>s\<close> when it has none.\<close>

definition rsplit_head :: "string \<Rightarrow> string" where
  "rsplit_head s =
     (if CHR ''.'' \<in> set s then rev (tl (dropWhile (\<lambda>c. c \<noteq> CHR ''.'') (rev s))) else s)"

text \<open>\<^verbatim>\<open>sys_pathnames_list\<close> and \<^verbatim>\<open>sys_pathnames_dict\<close>.\<close>

type_synonym pathnames = "string list \<times> (string \<rightharpoonup> nat)"

text \<open>Lines 270 to 272.\<close>

definition index_pathname :: "string \<Rightarrow> pathnames \<Rightarrow> pathnames" where
  "index_pathname pathname st =
     (case st of (sys_pathnames_list, sys_pathnames_dict) \<Rightarrow>
        (if sys_pathnames_dict pathname = None
         then (sys_pathnames_list @ [pathname],
               sys_pathnames_dict(pathname \<mapsto> length (sys_pathnames_list @ [pathname]) - 1))
         else (sys_pathnames_list, sys_pathnames_dict)))"

text \<open>Lines 263 to 278: the loop over the edges of the subgraph.\<close>

fun cycle_edges ::
    "string \<Rightarrow> graph \<Rightarrow> pathnames \<Rightarrow> (nat \<times> nat) list
       \<Rightarrow> error + (pathnames \<times> (nat \<times> nat) list)" where
  "cycle_edges src_to_tgt_str [] st edges_list = Inr (st, edges_list)"
| "cycle_edges src_to_tgt_str ((u, v) # es) st edges_list =
     (if u @ '' '' @ v \<noteq> src_to_tgt_str
      then (let st' = index_pathname v (index_pathname u st) in
            case getitem (snd st') u of
              Inl e \<Rightarrow> Inl e
            | Inr src \<Rightarrow>
                (case getitem (snd st') v of
                   Inl e \<Rightarrow> Inl e
                 | Inr tgt \<Rightarrow>
                     cycle_edges src_to_tgt_str es st' (edges_list @ [(src, tgt)])))
      else cycle_edges src_to_tgt_str es st edges_list)"

text \<open>
  The generator of line 262: the members of \<open>li\<close> whose execution order lies in the
  closed interval; a member without an execution order raises \<^verbatim>\<open>KeyError\<close>.
\<close>

definition window_nodes ::
    "(string \<rightharpoonup> nat) \<Rightarrow> string set \<Rightarrow> nat \<Rightarrow> nat \<Rightarrow> error + string set" where
  "window_nodes comp_exec_orders li exe_low exe_high =
     (if \<exists>n \<in> li. comp_exec_orders n = None then Inl KeyError
      else Inr {n \<in> li. exe_low \<le> the (comp_exec_orders n)
                         \<and> the (comp_exec_orders n) \<le> exe_high})"

text \<open>Lines 251 to 278: the loop over \<^verbatim>\<open>scc_list\<close> for one connection.\<close>

fun scc_loop ::
    "graph \<Rightarrow> (string \<rightharpoonup> nat) \<Rightarrow> string \<Rightarrow> string \<Rightarrow> string set list \<Rightarrow> nat
       \<Rightarrow> pathnames \<Rightarrow> (nat \<times> nat) list \<Rightarrow> error + (pathnames \<times> (nat \<times> nat) list)" where
  "scc_loop G comp_exec_orders src_subsystem tgt_subsystem [] count st edges_list =
     Inr (st, edges_list)"
| "scc_loop G comp_exec_orders src_subsystem tgt_subsystem (li # lis) count st edges_list =
     (if src_subsystem \<in> li \<and> tgt_subsystem \<in> li
      then (if count + 1 > 1 then Inl (ValueError ''Count greater than 1'')
            else (case getitem comp_exec_orders tgt_subsystem of
                    Inl e \<Rightarrow> Inl e
                  | Inr exe_tgt \<Rightarrow>
                     (case getitem comp_exec_orders src_subsystem of
                        Inl e \<Rightarrow> Inl e
                      | Inr exe_src \<Rightarrow>
                         (case window_nodes comp_exec_orders li
                                 (min exe_tgt exe_src) (max exe_tgt exe_src) of
                            Inl e \<Rightarrow> Inl e
                          | Inr nodes \<Rightarrow>
                             (case cycle_edges (src_subsystem @ '' '' @ tgt_subsystem)
                                     (subgraph_edges G nodes) st edges_list of
                                Inl e \<Rightarrow> Inl e
                              | Inr (st', edges_list') \<Rightarrow>
                                  scc_loop G comp_exec_orders src_subsystem tgt_subsystem lis
                                    (count + 1) st' edges_list')))))
      else scc_loop G comp_exec_orders src_subsystem tgt_subsystem lis count st edges_list)"

text \<open>Lines 280 to 285: the entry appended for a connection.\<close>

definition emit_connection :: "string \<Rightarrow> string \<Rightarrow> (nat \<times> nat) list \<Rightarrow> connection" where
  "emit_connection out_abs in_abs edges_list =
     (if edges_list \<noteq> []
      then \<lparr> conn_src = out_abs, conn_tgt = in_abs, conn_cycle_arrows = Some (sort edges_list) \<rparr>
      else \<lparr> conn_src = out_abs, conn_tgt = in_abs, conn_cycle_arrows = None \<rparr>)"

text \<open>Lines 240 to 285: the loop over the sorted connections.\<close>

fun connections_loop ::
    "graph \<Rightarrow> string set list \<Rightarrow> (string \<rightharpoonup> nat) \<Rightarrow> (string \<times> string option) list
       \<Rightarrow> pathnames \<Rightarrow> connection list \<Rightarrow> error + (pathnames \<times> connection list)" where
  "connections_loop G scc_list comp_exec_orders [] st connections_list =
     Inr (st, connections_list)"
| "connections_loop G scc_list comp_exec_orders ((in_abs, None) # items) st connections_list =
     connections_loop G scc_list comp_exec_orders items st connections_list"
| "connections_loop G scc_list comp_exec_orders ((in_abs, Some out_abs) # items) st
       connections_list =
     (case scc_loop G comp_exec_orders (rsplit_head out_abs) (rsplit_head in_abs) scc_list 0
             st [] of
        Inl e \<Rightarrow> Inl e
      | Inr (st', edges_list) \<Rightarrow>
          connections_loop G scc_list comp_exec_orders items st'
            (connections_list @ [emit_connection out_abs in_abs edges_list]))"

subsection \<open>\<^verbatim>\<open>_get_viewer_data\<close>\<close>

text \<open>\<^verbatim>\<open>root_group._var_abs2prom\<close> (line 289), an attribute of every system.\<close>

fun sys_var_abs2prom :: "system \<Rightarrow> var_typ \<Rightarrow> (string \<rightharpoonup> string)" where
  "sys_var_abs2prom (Component c) = c_var_abs2prom c"
| "sys_var_abs2prom (Group g subs) = g_var_abs2prom g"

text \<open>
  Lines 222 to 298, for the root group \<open>Group g subs\<close> and the driver entries chosen
  before. The result is what the call returns or raises, and the root group as the call
  leaves it. The call itself assigns to one attribute of the root group: line 234 stores
  the sorted connections in it. Then it calls three methods on the root group, in this
  order: \<^verbatim>\<open>compute_sys_graph\<close> (line 236), and, when the loop over the connections has
  not raised, \<^verbatim>\<open>get_design_vars\<close> (line 293) and \<^verbatim>\<open>get_responses\<close> (line 294); each
  is called on the root group as the calls before have left it, and what is read from
  the root group later (lines 289 and 296) is read from it as it is then:
  \<open>root_group_236\<close>, \<open>root_group_293\<close> and \<open>root_group_294\<close> are the root group after
  these lines. The local
  variables \<^verbatim>\<open>sorted_abs_input2src\<close>, \<^verbatim>\<open>G\<close> and \<^verbatim>\<open>comp_exec_orders\<close> keep the
  values they were given. The keys of a dict are distinct, so
  \<^verbatim>\<open>OrderedDict(sorted(d.items()))\<close> holds the sorted items.
\<close>

definition root_viewer_data ::
    "externals \<Rightarrow> group \<Rightarrow> system list \<Rightarrow> driver_dict \<Rightarrow> (error + data_dict) \<times> system" where
  "root_viewer_data ext g subs drv =
     (case get_tree_dict (Group g subs) Map.empty 0 False of
        Inl e \<Rightarrow> (Inl e, Group g subs)
      | Inr (tree, comp_exec_orders, comp_exec_idx) \<Rightarrow>
          (let sorted_abs_input2src = sort (g_conn_global_abs_in2out g);
               root_group = Group (g\<lparr> g_conn_global_abs_in2out := sorted_abs_input2src \<rparr>) subs;
               G = compute_sys_graph ext root_group;
               root_group_236 = after_compute_sys_graph ext root_group;
               scc = strongly_connected_components ext G;
               scc_list = filter (\<lambda>s. card s > 1) scc
           in case connections_loop G scc_list comp_exec_orders sorted_abs_input2src
                     ([], Map.empty) [] of
                Inl e \<Rightarrow> (Inl e, root_group_236)
              | Inr ((sys_pathnames_list, sys_pathnames_dict), connections_list) \<Rightarrow>
                  (let root_group_293 = after_get_design_vars ext root_group_236;
                       root_group_294 = after_get_responses ext root_group_293
                   in (Inr [''tree'' \<mapsto> JTree tree,
                            ''sys_pathnames_list'' \<mapsto> JStrings sys_pathnames_list,
                            ''connections_list'' \<mapsto> JConnections connections_list,
                            ''abs2prom'' \<mapsto> JAbs2prom (sys_var_abs2prom root_group_236),
                            ''driver'' \<mapsto> JDriver drv,
                            ''design_vars'' \<mapsto> JObj (get_design_vars ext root_group_236),
                            ''responses'' \<mapsto> JObj (get_responses ext root_group_293),
                            ''declare_partials_list'' \<mapsto>
                               JStrings (get_declare_partials root_group_294)],
                       root_group_294))))"

text \<open>Lines 197 to 203: the driver entries for a \<^verbatim>\<open>Problem\<close>.\<close>

definition problem_driver_dict :: "driver \<Rightarrow> driver_dict" where
  "problem_driver_dict d =
     (let driver_type = (if drv_is_doe d then ''doe'' else ''optimization'') in
      \<lparr> dd_name = Some (drv_class_name d),
        dd_type = Some driver_type,
        dd_options = Some (drv_options d),
        dd_opt_settings =
          (if driver_type = ''optimization'' then
             (case drv_opt_settings d of Some s \<Rightarrow> s | None \<Rightarrow> PyNone)
           else PyNone) \<rparr>)"

text \<open>Lines 208 to 211: the driver entries for a root group.\<close>

definition no_driver_dict :: driver_dict where
  "no_driver_dict =
     \<lparr> dd_name = None, dd_type = None, dd_options = None, dd_opt_settings = PyNone \<rparr>"

text \<open>
  What a call of \<^verbatim>\<open>_get_viewer_data\<close> does: the dict it returns or the exception it
  raises, the warnings it issues through \<^verbatim>\<open>simple_warning\<close>, and its argument as
  the call leaves it.
\<close>

record outcome =
  returned :: "error + data_dict"
  warnings :: "string list"
  source_after :: data_source

definition get_viewer_data :: "externals \<Rightarrow> data_source \<Rightarrow> outcome" where
  "get_viewer_data ext data_source =
     (case data_source of
        Problem p \<Rightarrow>
          (case p_model p of
             Component c \<Rightarrow>
               \<lparr> returned = Inr Map.empty,
                 warnings = [''The model is not a Group, viewer data is unavailable.''],
                 source_after = data_source \<rparr>
           | Group g subs \<Rightarrow>
               (case root_viewer_data ext g subs (problem_driver_dict (p_driver p)) of
                  (r, root_group) \<Rightarrow>
                    \<lparr> returned = r, warnings = [],
                      source_after = Problem (p\<lparr> p_model := root_group \<rparr>) \<rparr>))
      | System (Group g subs) \<Rightarrow>
          (if g_pathname g = []
           then (case root_viewer_data ext g subs no_driver_dict of
                   (r, root_group) \<Rightarrow>
                     \<lparr> returned = r, warnings = [], source_after = System root_group \<rparr>)
           else \<lparr> returned = Inr Map.empty, warnings = [], source_after = data_source \<rparr>)
      | System (Component c) \<Rightarrow>
          \<lparr> returned =
              Inl (TypeError ''_get_viewer_data only accepts Problems, Groups or filenames''),
            warnings = [], source_after = data_source \<rparr>
      | Filename f \<Rightarrow>
          \<lparr> returned = problem_metadata ext f, warnings = [], source_after = data_source \<rparr>
      | OtherObject x \<Rightarrow>
          \<lparr> returned =
              Inl (TypeError ''_get_viewer_data only accepts Problems, Groups or filenames''),
            warnings = [], source_after = data_source \<rparr>)"

subsection \<open>What the properties speak of\<close>






text \<open>The \<^verbatim>\<open>connections_list\<close> of a returned dict (empty when there is none).\<close>

definition connections_of :: "data_dict \<Rightarrow> connection list" where
  "connections_of d = (case d ''connections_list'' of Some (JConnections cl) \<Rightarrow> cl | _ \<Rightarrow> [])"

text \<open>The \<^verbatim>\<open>sys_pathnames_list\<close> of a returned dict (empty when there is none).\<close>

definition pathnames_of :: "data_dict \<Rightarrow> string list" where
  "pathnames_of d = (case d ''sys_pathnames_list'' of Some (JStrings ps) \<Rightarrow> ps | _ \<Rightarrow> [])"

text \<open>The root group of a data source that has one: the model of a problem, or a group.\<close>

fun root_conns :: "data_source \<Rightarrow> (string \<times> string option) list" where
  "root_conns (Problem p) =
     (case p_model p of Group g subs \<Rightarrow> g_conn_global_abs_in2out g | Component c \<Rightarrow> [])"
| "root_conns (System (Group g subs)) = g_conn_global_abs_in2out g"
| "root_conns (System (Component c)) = []"
| "root_conns (Filename f) = []"
| "root_conns (OtherObject x) = []"

text \<open>
  The root group lines 190 to 214 select: the model of a problem when it is a group, or
  a group without a path name.
\<close>

fun root_group_of :: "data_source \<Rightarrow> (group \<times> system list) option" where
  "root_group_of (Problem p) =
     (case p_model p of Group g subs \<Rightarrow> Some (g, subs) | Component c \<Rightarrow> None)"
| "root_group_of (System (Group g subs)) = (if g_pathname g = [] then Some (g, subs) else None)"
| "root_group_of (System (Component c)) = None"
| "root_group_of (Filename f) = None"
| "root_group_of (OtherObject x) = None"

text \<open>The (source, target) pair and the (target, source) pair of an entry.\<close>

definition src_tgt :: "connection \<Rightarrow> string \<times> string" where
  "src_tgt c = (conn_src c, conn_tgt c)"

definition tgt_src :: "connection \<Rightarrow> string \<times> string" where
  "tgt_src c = (conn_tgt c, conn_src c)"

text \<open>
  The root group after line 234: its connections replaced by the sorted connections,
  every other attribute as it was.
\<close>

definition sorted_root :: "group \<Rightarrow> system list \<Rightarrow> system" where
  "sorted_root g subs =
     Group (g\<lparr> g_conn_global_abs_in2out := sort (g_conn_global_abs_in2out g) \<rparr>) subs"

text \<open>
  A data source with \<open>r\<close> in the place of its system (the model of a problem, or the
  system itself); everything else is as it was.
\<close>

fun put_root :: "data_source \<Rightarrow> system \<Rightarrow> data_source" where
  "put_root (Problem p) r = Problem (p\<lparr> p_model := r \<rparr>)"
| "put_root (System s) r = System r"
| "put_root (Filename f) r = Filename f"
| "put_root (OtherObject x) r = OtherObject x"

text \<open>
  A path name has an execution order within the closed interval between the execution
  orders of the owners of a connection's source and target (all three are recorded).
\<close>

definition in_window :: "(string \<rightharpoonup> nat) \<Rightarrow> string \<Rightarrow> string \<Rightarrow> string \<Rightarrow> bool" where
  "in_window comp_exec_orders src_subsystem tgt_subsystem p =
     (case (comp_exec_orders p, comp_exec_orders src_subsystem, comp_exec_orders tgt_subsystem) of
        (Some e, Some exe_src, Some exe_tgt) \<Rightarrow>
          min exe_src exe_tgt \<le> e \<and> e \<le> max exe_src exe_tgt
      | _ \<Rightarrow> False)"

text \<open>
  The cycle arrows registered for the connections that have a source, in the order of
  the loop over the connections: for each connection its source, its target and
  \<^verbatim>\<open>edges_list\<close> as the loop over \<^verbatim>\<open>scc_list\<close> (lines 248 to 278) leaves it, before
  lines 280 to 285 emit the entry. The index of path names goes from one connection to
  the next as in the source. Nothing is listed from a connection on whose loop raises.
\<close>

fun registered ::
    "graph \<Rightarrow> string set list \<Rightarrow> (string \<rightharpoonup> nat) \<Rightarrow> (string \<times> string option) list
       \<Rightarrow> pathnames \<Rightarrow> (string \<times> string \<times> (nat \<times> nat) list) list" where
  "registered G scc_list comp_exec_orders [] st = []"
| "registered G scc_list comp_exec_orders ((in_abs, None) # items) st =
     registered G scc_list comp_exec_orders items st"
| "registered G scc_list comp_exec_orders ((in_abs, Some out_abs) # items) st =
     (case scc_loop G comp_exec_orders (rsplit_head out_abs) (rsplit_head in_abs) scc_list 0
             st [] of
        Inl e \<Rightarrow> []
      | Inr (st', edges_list) \<Rightarrow>
          (out_abs, in_abs, edges_list) # registered G scc_list comp_exec_orders items st')"

text \<open>The dict a call returned (empty when it raised).\<close>

definition returned_dict :: "outcome \<Rightarrow> data_dict" where
  "returned_dict out = (case returned out of Inr d \<Rightarrow> d | Inl e \<Rightarrow> Map.empty)"

subsection \<open>A model with a feedback pair\<close>

text \<open>
  Three components \<open>A\<close>, \<open>B\<close> and \<open>C\<close> under a root group, each with an input \<open>x\<close>,
  a discrete input \<open>k\<close> and an output \<open>y\<close>; \<open>A.y\<close> feeds \<open>B.x\<close>, \<open>B.y\<close> feeds \<open>A.x\<close>
  and \<open>C.x\<close>, and the input \<open>A.z\<close> has no source. One process.
\<close>

definition serial_comm :: comm where
  "serial_comm = \<lparr> comm_size = 1, comm_rank = 0, comm_allgather = (\<lambda>children. [children]) \<rparr>"

definition example_comp :: "string \<Rightarrow> component" where
  "example_comp nm =
     \<lparr> c_name = nm, c_pathname = nm, c_classes = {ExplicitComponent}, c_comm = serial_comm,
       c_linear_solver = None, c_nonlinear_solver = None, c_overrides = (\<lambda>m. False),
       c_var_abs_names = (\<lambda>t. case t of Input \<Rightarrow> [nm @ ''.x''] | Output \<Rightarrow> [nm @ ''.y'']),
       c_var_discrete =
         (\<lambda>t. case t of Input \<Rightarrow> [(''k'', [''value'' \<mapsto> PyInt 1])] | Output \<Rightarrow> []),
       c_var_abs2meta =
         [nm @ ''.x'' \<mapsto> [''value'' \<mapsto> PyInstance ''ndarray''],
          nm @ ''.y'' \<mapsto> [''value'' \<mapsto> PyInstance ''ndarray'']],
       c_var_abs2prom =
         (\<lambda>t. case t of Input \<Rightarrow> [nm @ ''.x'' \<mapsto> ''x''] | Output \<Rightarrow> [nm @ ''.y'' \<mapsto> ''y'']),
       c_subjacs_info = [((nm @ ''.y'', nm @ ''.x''), PyNone)] \<rparr>"

definition example_group :: "string \<Rightarrow> group" where
  "example_group path =
     \<lparr> g_name = path, g_pathname = path, g_is_parallel_group = False, g_comm = serial_comm,
       g_linear_solver = Some ''LN: RUNONCE'', g_nonlinear_solver = Some ''NL: RUNONCE'',
       g_conn_global_abs_in2out =
         [(''C.x'', Some ''B.y''), (''B.x'', Some ''A.y''), (''A.x'', Some ''B.y''),
          (''A.z'', None)],
       g_var_abs2prom = (\<lambda>t. Map.empty) \<rparr>"

definition example_subs :: "system list" where
  "example_subs =
     [Component (example_comp ''A''), Component (example_comp ''B''),
      Component (example_comp ''C'')]"

definition example_root :: system where
  "example_root = Group (example_group []) example_subs"

definition example_driver :: driver where
  "example_driver =
     \<lparr> drv_class_name = ''Driver'', drv_is_doe = False, drv_options = [],
       drv_opt_settings = None \<rparr>"

text \<open>
  The system graph and its strongly connected components for this model; the three
  methods leave the model as they find it.
\<close>

definition example_ext :: externals where
  "example_ext =
     \<lparr> compute_sys_graph = (\<lambda>s. [(''A'', ''B''), (''B'', ''A''), (''B'', ''C'')]),
       after_compute_sys_graph = (\<lambda>s. s),
       strongly_connected_components = (\<lambda>G. [{''C''}, {''A'', ''B''}]),
       get_design_vars = (\<lambda>s. PyNone),
       after_get_design_vars = (\<lambda>s. s),
       get_responses = (\<lambda>s. PyNone),
       after_get_responses = (\<lambda>s. s),
       problem_metadata = (\<lambda>f. Inl IOError) \<rparr>"

text \<open>The same with a partition that is not one: two sets hold both \<open>A\<close> and \<open>B\<close>.\<close>

definition overlapping_ext :: externals where
  "overlapping_ext =
     example_ext\<lparr> strongly_connected_components := (\<lambda>G. [{''A'', ''B''}, {''A'', ''B'', ''C''}]) \<rparr>"

subsection \<open>A ring of three components\<close>

text \<open>
  The three components again, now with \<open>A.y\<close> feeding \<open>B.x\<close> and \<open>C.x\<close>, a system
  graph with the edges \<open>B \<rightarrow> C\<close>, \<open>A \<rightarrow> B\<close>, \<open>C \<rightarrow> A\<close> and \<open>A \<rightarrow> C\<close>, and all three
  components in one strongly connected component.
\<close>

definition ring_group :: group where
  "ring_group =
     (example_group [])\<lparr> g_conn_global_abs_in2out :=
        [(''C.x'', Some ''A.y''), (''B.x'', Some ''A.y'')] \<rparr>"

definition ring_ext :: externals where
  "ring_ext =
     example_ext\<lparr> compute_sys_graph :=
                    (\<lambda>s. [(''B'', ''C''), (''A'', ''B''), (''C'', ''A''), (''A'', ''C'')]),
                  strongly_connected_components := (\<lambda>G. [{''A'', ''B'', ''C''}]) \<rparr>"

subsection \<open>A parallel group on two processes\<close>




subsection \<open>Auxiliary functions of the proofs\<close>


text \<open>The (input, source) pairs of the connections that have a source, in order.\<close>

fun defined_pairs :: "(string \<times> string option) list \<Rightarrow> (string \<times> string) list" where
  "defined_pairs [] = []"
| "defined_pairs ((in_abs, None) # items) = defined_pairs items"
| "defined_pairs ((in_abs, Some out_abs) # items) = (in_abs, out_abs) # defined_pairs items"

text \<open>The driver entries lines 190 to 214 choose for a data source.\<close>

fun driver_dict_of :: "data_source \<Rightarrow> driver_dict" where
  "driver_dict_of (Problem p) = problem_driver_dict (p_driver p)"
| "driver_dict_of (System s) = no_driver_dict"
| "driver_dict_of (Filename f) = no_driver_dict"
| "driver_dict_of (OtherObject x) = no_driver_dict"

text \<open>
  The invariant of the path name index: the dict maps a path name to its position in
  the list, and holds nothing else.
\<close>

definition indexed :: "pathnames \<Rightarrow> bool" where
  "indexed st = (\<forall>p i. snd st p = Some i \<longleftrightarrow> (i < length (fst st) \<and> fst st ! i = p))"

text \<open>
  A cycle arrow \<open>(a, b)\<close> points into the list of path names, at the two ends of an edge
  of the graph that lie in one set with the owners of the connection and within its
  window of execution orders.
\<close>

definition arrow_ok ::
    "string list \<Rightarrow> graph \<Rightarrow> string set list \<Rightarrow> (string \<rightharpoonup> nat) \<Rightarrow> string \<Rightarrow> string
       \<Rightarrow> nat \<times> nat \<Rightarrow> bool" where
  "arrow_ok spl G scc_list comp_exec_orders src_subsystem tgt_subsystem ab =
     (fst ab < length spl \<and> snd ab < length spl
      \<and> (spl ! fst ab, spl ! snd ab) \<in> set G
      \<and> (\<exists>li \<in> set scc_list. src_subsystem \<in> li \<and> tgt_subsystem \<in> li
              \<and> spl ! fst ab \<in> li \<and> spl ! snd ab \<in> li)
      \<and> in_window comp_exec_orders src_subsystem tgt_subsystem (spl ! fst ab)
      \<and> in_window comp_exec_orders src_subsystem tgt_subsystem (spl ! snd ab))"

text \<open>Every cycle arrow of an entry is such an arrow.\<close>

definition entry_ok ::
    "string list \<Rightarrow> graph \<Rightarrow> string set list \<Rightarrow> (string \<rightharpoonup> nat) \<Rightarrow> connection \<Rightarrow> bool" where
  "entry_ok spl G scc_list comp_exec_orders c =
     (\<forall>es. conn_cycle_arrows c = Some es \<longrightarrow>
        (\<forall>ab \<in> set es. arrow_ok spl G scc_list comp_exec_orders
                          (rsplit_head (conn_src c)) (rsplit_head (conn_tgt c)) ab))"

section \<open>Properties\<close>

lemmas ex_defs =
  get_viewer_data_def example_root_def example_group_def example_subs_def example_comp_def
  root_viewer_data_def example_ext_def overlapping_ext_def serial_comm_def leaf_vars_def
  get_var_dict_def getitem_def component_type_def comp_linear_solver_def
  comp_nonlinear_solver_def relabel_root_def gather_children_def rsplit_head_def
  window_nodes_def subgraph_edges_def index_pathname_def emit_connection_def Let_def
  connections_of_def pathnames_of_def no_driver_dict_def

lemma getitem_Inr: "getitem d k = Inr v \<longleftrightarrow> d k = Some v"
  by (simp add: getitem_def split: option.splits)

subsection \<open>The hierarchy tree builder\<close>











lemma map_raise_append:
  "map_raise f (xs @ ys) =
     (case map_raise f xs of
        Inl e \<Rightarrow> Inl e
      | Inr as \<Rightarrow> (case map_raise f ys of Inl e \<Rightarrow> Inl e | Inr bs \<Rightarrow> Inr (as @ bs)))"
  by (induction xs) (simp_all split: sum.splits)

lemma map_raise_Pair:
  "map_raise (\<lambda>(typ, name). g typ name) (map (Pair t) xs) = map_raise (g t) xs"
  by (induction xs) (simp_all split: sum.splits)

text \<open>
  C10. The children of a component's tree dict are, in this order: the variable dicts of
  its continuous inputs (\<^verbatim>\<open>_var_abs_names['input']\<close>), of its discrete inputs (the keys
  of \<^verbatim>\<open>_var_discrete['input']\<close>), of its continuous outputs and of its discrete outputs,
  each list in the order of its source.
\<close>

theorem leaf_children_order:
  assumes "get_tree_dict (Component c) orders idx is_parallel
             = Inr (TreeDict d children, orders', idx')"
  shows "\<exists>cin din cout dout.
           children = map VarDict (cin @ din @ cout @ dout)
         \<and> map_raise (get_var_dict c Input) (c_var_abs_names c Input) = Inr cin
         \<and> map_raise (get_var_dict c Input) (map fst (c_var_discrete c Input)) = Inr din
         \<and> map_raise (get_var_dict c Output) (c_var_abs_names c Output) = Inr cout
         \<and> map_raise (get_var_dict c Output) (map fst (c_var_discrete c Output)) = Inr dout"
proof -
  from assms obtain vds where
    v: "map_raise (\<lambda>(typ, name). get_var_dict c typ name) (leaf_vars c) = Inr vds"
    and c: "children = map VarDict vds"
    by (auto split: sum.splits)
  have l: "leaf_vars c =
      map (Pair Input) (c_var_abs_names c Input)
      @ map (Pair Input) (map fst (c_var_discrete c Input))
      @ map (Pair Output) (c_var_abs_names c Output)
      @ map (Pair Output) (map fst (c_var_discrete c Output))"
    by (simp add: leaf_vars_def)
  from v show ?thesis
    unfolding l c map_raise_append map_raise_Pair
    by (auto split: sum.splits)
qed

text \<open>Component \<open>A\<close>: the input \<open>x\<close>, the discrete input \<open>k\<close>, then the output \<open>y\<close>.\<close>

theorem leaf_children_order_witness:
  "\<exists>d children orders' idx' cin din cout dout.
     get_tree_dict (Component (example_comp ''A'')) Map.empty 0 False
       = Inr (TreeDict d children, orders', idx')
     \<and> children = map VarDict (cin @ din @ cout @ dout)
     \<and> map vd_name cin = [''x''] \<and> map vd_name din = [''k'']
     \<and> map vd_name cout = [''y''] \<and> dout = []"
proof -
  obtain d children orders' idx' where
    e: "get_tree_dict (Component (example_comp ''A'')) Map.empty 0 False
          = Inr (TreeDict d children, orders', idx')"
    by (simp add: ex_defs)
  from leaf_children_order[OF e] obtain cin din cout dout where
    c: "children = map VarDict (cin @ din @ cout @ dout)"
    and 1: "map_raise (get_var_dict (example_comp ''A'') Input)
              (c_var_abs_names (example_comp ''A'') Input) = Inr cin"
    and 2: "map_raise (get_var_dict (example_comp ''A'') Input)
              (map fst (c_var_discrete (example_comp ''A'') Input)) = Inr din"
    and 3: "map_raise (get_var_dict (example_comp ''A'') Output)
              (c_var_abs_names (example_comp ''A'') Output) = Inr cout"
    and 4: "map_raise (get_var_dict (example_comp ''A'') Output)
              (map fst (c_var_discrete (example_comp ''A'') Output)) = Inr dout"
    by blast
  from 1 have n1: "map vd_name cin = [''x'']" by (auto simp: ex_defs)
  from 2 have n2: "map vd_name din = [''k'']" by (auto simp: ex_defs)
  from 3 have n3: "map vd_name cout = [''y'']" by (auto simp: ex_defs)
  from 4 have n4: "dout = []" by (auto simp: ex_defs)
  show ?thesis
    apply (rule exI[of _ d], rule exI[of _ children], rule exI[of _ orders'],
           rule exI[of _ idx'], rule exI[of _ cin], rule exI[of _ din],
           rule exI[of _ cout], rule exI[of _ dout])
    using e c n1 n2 n3 n4 by simp
qed

subsection \<open>The entry point\<close>

text \<open>
  C9. For a \<^verbatim>\<open>Problem\<close> whose model is not a group, \<^verbatim>\<open>_get_viewer_data\<close> returns the
  empty dict, raises nothing, issues one warning that says why, and leaves the problem
  as it was.
\<close>

theorem non_group_model_soft_degrade:
  "get_viewer_data ext (Problem \<lparr> p_model = Component c, p_driver = drv \<rparr>) =
     \<lparr> returned = Inr Map.empty,
       warnings = [''The model is not a Group, viewer data is unavailable.''],
       source_after = Problem \<lparr> p_model = Component c, p_driver = drv \<rparr> \<rparr>"
  by (simp add: get_viewer_data_def)

subsection \<open>The connection list\<close>

lemma emit_connection_fields [simp]:
  "conn_src (emit_connection out_abs in_abs el) = out_abs"
  "conn_tgt (emit_connection out_abs in_abs el) = in_abs"
  by (simp_all add: emit_connection_def)

lemma connections_loop_pairs:
  "connections_loop G sl orders items st cl = Inr (st', cl') \<Longrightarrow>
     map tgt_src cl' = map tgt_src cl @ defined_pairs items"
proof (induction G sl orders items st cl rule: connections_loop.induct)
  case (1 G sl orders st cl)
  then show ?case by simp
next
  case (2 G sl orders in_abs items st cl)
  then show ?case by simp
next
  case (3 G sl orders in_abs out_abs items st cl)
  from "3.prems" obtain st1 el where
    s: "scc_loop G orders (rsplit_head out_abs) (rsplit_head in_abs) sl 0 st [] = Inr (st1, el)"
    and r: "connections_loop G sl orders items st1 (cl @ [emit_connection out_abs in_abs el])
              = Inr (st', cl')"
    by (auto split: sum.splits)
  from "3.IH"[OF s refl r] show ?case by (simp add: tgt_src_def)
qed

lemma root_viewer_data_Inr:
  assumes "root_viewer_data ext g subs drv = (Inr d, r)"
  obtains tree orders idx spl spd where
    "get_tree_dict (Group g subs) Map.empty 0 False = Inr (tree, orders, idx)"
    "r = after_get_responses ext (after_get_design_vars ext (after_compute_sys_graph ext
           (Group (g\<lparr> g_conn_global_abs_in2out := sort (g_conn_global_abs_in2out g) \<rparr>) subs)))"
    "connections_loop
        (compute_sys_graph ext
           (Group (g\<lparr> g_conn_global_abs_in2out := sort (g_conn_global_abs_in2out g) \<rparr>) subs))
        (filter (\<lambda>s. card s > 1) (strongly_connected_components ext (compute_sys_graph ext
           (Group (g\<lparr> g_conn_global_abs_in2out := sort (g_conn_global_abs_in2out g) \<rparr>) subs))))
        orders (sort (g_conn_global_abs_in2out g)) ([], Map.empty) []
      = Inr ((spl, spd), connections_of d)"
    "pathnames_of d = spl"
    "dom d = {''declare_partials_list'', ''responses'', ''design_vars'', ''driver'',
              ''abs2prom'', ''connections_list'', ''sys_pathnames_list'', ''tree''}"
proof -
  from assms obtain tree orders idx where
    t: "get_tree_dict (Group g subs) Map.empty 0 False = Inr (tree, orders, idx)"
    unfolding root_viewer_data_def by (auto split: sum.splits simp del: get_tree_dict.simps)
  let ?r = "Group (g\<lparr> g_conn_global_abs_in2out := sort (g_conn_global_abs_in2out g) \<rparr>) subs"
  let ?r1 = "after_compute_sys_graph ext ?r"
  let ?r2 = "after_get_design_vars ext ?r1"
  let ?r3 = "after_get_responses ext ?r2"
  let ?G = "compute_sys_graph ext ?r"
  let ?sl = "filter (\<lambda>s. card s > 1) (strongly_connected_components ext ?G)"
  from assms t obtain spl spd cl where
    c: "connections_loop ?G ?sl orders (sort (g_conn_global_abs_in2out g)) ([], Map.empty) []
          = Inr ((spl, spd), cl)"
    unfolding root_viewer_data_def Let_def
    by (auto split: sum.splits prod.splits simp del: get_tree_dict.simps)
  from assms t c have r: "r = ?r3"
    and d: "d = [''tree'' \<mapsto> JTree tree,
                 ''sys_pathnames_list'' \<mapsto> JStrings spl,
                 ''connections_list'' \<mapsto> JConnections cl,
                 ''abs2prom'' \<mapsto> JAbs2prom (sys_var_abs2prom ?r1),
                 ''driver'' \<mapsto> JDriver drv,
                 ''design_vars'' \<mapsto> JObj (get_design_vars ext ?r1),
                 ''responses'' \<mapsto> JObj (get_responses ext ?r2),
                 ''declare_partials_list'' \<mapsto> JStrings (get_declare_partials ?r3)]"
    unfolding root_viewer_data_def Let_def
    by (auto simp del: get_tree_dict.simps get_declare_partials.simps sys_var_abs2prom.simps)
  have 1: "connections_of d = cl" by (simp add: d connections_of_def)
  have 2: "pathnames_of d = spl" by (simp add: d pathnames_of_def)
  have 3: "dom d = {''declare_partials_list'', ''responses'', ''design_vars'', ''driver'',
                     ''abs2prom'', ''connections_list'', ''sys_pathnames_list'', ''tree''}"
    unfolding d by (simp del: get_declare_partials.simps sys_var_abs2prom.simps)
  show thesis
  proof (rule that[of tree orders idx spl spd])
    show "get_tree_dict (Group g subs) Map.empty 0 False = Inr (tree, orders, idx)" by (rule t)
    show "r = ?r3" by (rule r)
    show "connections_loop ?G ?sl orders (sort (g_conn_global_abs_in2out g)) ([], Map.empty) []
      = Inr ((spl, spd), connections_of d)"
      unfolding 1 by (rule c)
    show "pathnames_of d = spl" by (rule 2)
    show "dom d = {''declare_partials_list'', ''responses'', ''design_vars'', ''driver'',
              ''abs2prom'', ''connections_list'', ''sys_pathnames_list'', ''tree''}"
      by (rule 3)
  qed
qed

lemma get_viewer_data_root:
  assumes "root_group_of ds = Some (g, subs)"
  shows "returned (get_viewer_data ext ds) = fst (root_viewer_data ext g subs (driver_dict_of ds))"
  using assms
  by (cases ds rule: root_group_of.cases)
     (auto simp: get_viewer_data_def split: system.splits prod.splits if_splits)


lemma sorted_map_fst:
  "sorted (xs :: ('a::linorder \<times> 'b::linorder) list) \<Longrightarrow> sorted (map fst xs)"
  by (induction xs) (auto simp: less_eq_prod_def)

lemma defined_pairs_set: "set (defined_pairs xs) = {(i, out). (i, Some out) \<in> set xs}"
  by (induction xs rule: defined_pairs.induct) auto

lemma defined_pairs_strict:
  "sorted_wrt (<) (map fst xs) \<Longrightarrow> sorted_wrt (<) (map fst (defined_pairs xs))"
proof (induction xs rule: defined_pairs.induct)
  case 1
  then show ?case by simp
next
  case (2 in_abs items)
  then show ?case by simp
next
  case (3 in_abs out_abs items)
  from "3.prems" have a: "\<forall>x \<in> set items. in_abs < fst x"
    and b: "sorted_wrt (<) (map fst items)" by simp_all
  have "\<forall>x \<in> set (defined_pairs items). in_abs < fst x"
  proof
    fix x assume "x \<in> set (defined_pairs items)"
    then have "(fst x, Some (snd x)) \<in> set items"
      by (simp add: defined_pairs_set case_prod_unfold)
    with a have "in_abs < fst (fst x, Some (snd x))" by (rule bspec)
    then show "in_abs < fst x" by simp
  qed
  with "3.IH"[OF b] show ?case by simp
qed

lemma filter_singleton:
  "distinct (map f xs) \<Longrightarrow> x \<in> set xs \<Longrightarrow> filter (\<lambda>y. f y = f x) xs = [x]"
proof (induction xs)
  case Nil
  then show ?case by simp
next
  case (Cons a xs)
  show ?case
  proof (cases "a = x")
    case True
    from Cons.prems have "f a \<notin> f ` set xs" by simp
    then have "\<forall>y \<in> set xs. f y \<noteq> f a" by (metis imageI)
    then have "filter (\<lambda>y. f y = f a) xs = []" by (simp add: filter_empty_conv)
    with True show ?thesis by simp
  next
    case False
    with Cons.prems have x: "x \<in> set xs" by simp
    moreover from Cons.prems have "f a \<notin> f ` set xs" by simp
    ultimately have "f a \<noteq> f x" by (metis imageI)
    with Cons.IH x Cons.prems show ?thesis by simp
  qed
qed

lemma sort_keys_strict:
  assumes "distinct (map fst (xs :: (string \<times> string option) list))"
  shows "sorted_wrt (<) (map fst (sort xs))"
proof -
  from assms have "distinct xs" "inj_on fst (set xs)" by (simp_all add: distinct_map)
  then have "distinct (map fst (sort xs))" by (simp add: distinct_map)
  moreover have "sorted (map fst (sort xs))" by (rule sorted_map_fst) simp
  ultimately show ?thesis by (simp add: strict_sorted_iff)
qed

lemma viewer_connections:
  assumes "root_group_of ds = Some (g, subs)"
      and "returned (get_viewer_data ext ds) = Inr d"
  shows "map tgt_src (connections_of d) = defined_pairs (sort (g_conn_global_abs_in2out g))"
proof -
  from get_viewer_data_root[OF assms(1), of ext] assms(2)
  have "fst (root_viewer_data ext g subs (driver_dict_of ds)) = Inr d" by simp
  then obtain r where
    "root_viewer_data ext g subs (driver_dict_of ds) = (Inr d, r)"
    by (cases "root_viewer_data ext g subs (driver_dict_of ds)") simp
  then obtain tree orders idx spl spd where
    "connections_loop
        (compute_sys_graph ext
           (Group (g\<lparr> g_conn_global_abs_in2out := sort (g_conn_global_abs_in2out g) \<rparr>) subs))
        (filter (\<lambda>s. card s > 1) (strongly_connected_components ext (compute_sys_graph ext
           (Group (g\<lparr> g_conn_global_abs_in2out := sort (g_conn_global_abs_in2out g) \<rparr>) subs))))
        orders (sort (g_conn_global_abs_in2out g)) ([], Map.empty) []
      = Inr ((spl, spd), connections_of d)"
    by (rule root_viewer_data_Inr)
  from connections_loop_pairs[OF this] show ?thesis by simp
qed

lemma viewer_targets_strict:
  assumes "root_group_of ds = Some (g, subs)"
      and "returned (get_viewer_data ext ds) = Inr d"
      and "distinct (map fst (g_conn_global_abs_in2out g))"
  shows "sorted_wrt (<) (map conn_tgt (connections_of d))"
proof -
  have "map conn_tgt (connections_of d) = map fst (map tgt_src (connections_of d))"
    by (simp add: tgt_src_def comp_def)
  also have "\<dots> = map fst (defined_pairs (sort (g_conn_global_abs_in2out g)))"
    by (simp only: viewer_connections[OF assms(1,2)])
  finally show ?thesis
    using defined_pairs_strict[OF sort_keys_strict[OF assms(3)]] by simp
qed

text \<open>
  C1, as the code has it. The items of \<^verbatim>\<open>_conn_global_abs_in2out\<close> are (input,
  source) pairs and its keys are distinct, so line 233 sorts the connections by their
  target path: the entries of \<^verbatim>\<open>connections_list\<close> are in strictly ascending order
  of target path, whatever their source paths are.
\<close>

theorem connections_sorted_by_target:
  assumes "root_group_of ds = Some (g, subs)"
      and "returned (get_viewer_data ext ds) = Inr d"
      and "distinct (map fst (g_conn_global_abs_in2out g))"
  shows "sorted_wrt (<) (map conn_tgt (connections_of d))"
  using assms by (rule viewer_targets_strict)

text \<open>
  C8. When \<^verbatim>\<open>_get_viewer_data\<close> returns a snapshot of a root group, an input whose
  source is \<^verbatim>\<open>None\<close> is the target of no entry of \<^verbatim>\<open>connections_list\<close>, and an
  input with a source is the target of exactly one entry, whose source is that source.
\<close>

theorem unsourced_inputs_omitted:
  assumes "root_group_of ds = Some (g, subs)"
      and "returned (get_viewer_data ext ds) = Inr d"
      and "distinct (map fst (g_conn_global_abs_in2out g))"
  shows "(\<forall>in_abs. (in_abs, None) \<in> set (g_conn_global_abs_in2out g) \<longrightarrow>
            (\<forall>c \<in> set (connections_of d). conn_tgt c \<noteq> in_abs))
       \<and> (\<forall>in_abs out_abs. (in_abs, Some out_abs) \<in> set (g_conn_global_abs_in2out g) \<longrightarrow>
            (\<exists>c. filter (\<lambda>c. conn_tgt c = in_abs) (connections_of d) = [c]
                  \<and> conn_src c = out_abs))"
proof (intro conjI allI impI ballI)
  let ?conns = "g_conn_global_abs_in2out g"
  let ?cl = "connections_of d"
  note m = viewer_connections[OF assms(1,2)]
  have mem: "\<And>c. c \<in> set ?cl \<Longrightarrow> (conn_tgt c, Some (conn_src c)) \<in> set ?conns"
  proof -
    fix c assume "c \<in> set ?cl"
    then have "tgt_src c \<in> set (map tgt_src ?cl)" by simp
    then show "(conn_tgt c, Some (conn_src c)) \<in> set ?conns"
      unfolding m by (simp add: defined_pairs_set tgt_src_def)
  qed
  {
    fix in_abs c
    assume n: "(in_abs, None) \<in> set ?conns" and c: "c \<in> set ?cl"
    show "conn_tgt c \<noteq> in_abs"
    proof
      assume "conn_tgt c = in_abs"
      with mem[OF c] have "(in_abs, Some (conn_src c)) \<in> set ?conns" by simp
      from assms(3) n this have "None = Some (conn_src c)" by (rule eq_key_imp_eq_value)
      then show False by simp
    qed
  }
  {
    fix in_abs out_abs
    assume s: "(in_abs, Some out_abs) \<in> set ?conns"
    have st: "sorted_wrt (<) (map conn_tgt ?cl)"
      by (rule viewer_targets_strict[OF assms])
    then have dist: "distinct (map conn_tgt ?cl)" by (simp add: strict_sorted_iff)
    from s have "(in_abs, out_abs) \<in> set (map tgt_src ?cl)"
      unfolding m by (simp add: defined_pairs_set)
    then obtain c where c: "c \<in> set ?cl" "conn_tgt c = in_abs" "conn_src c = out_abs"
      by (auto simp: tgt_src_def)
    from filter_singleton[OF dist c(1)] c(2)
    have "filter (\<lambda>c. conn_tgt c = in_abs) ?cl = [c]" by simp
    with c show "\<exists>c. filter (\<lambda>c. conn_tgt c = in_abs) ?cl = [c] \<and> conn_src c = out_abs"
      by blast
  }
qed


lemma example_run:
  obtains d where
    "returned (get_viewer_data example_ext (System example_root)) = Inr d"
    "connections_of d =
       [\<lparr>conn_src = ''B.y'', conn_tgt = ''A.x'', conn_cycle_arrows = Some [(0, 1)]\<rparr>,
        \<lparr>conn_src = ''A.y'', conn_tgt = ''B.x'', conn_cycle_arrows = Some [(1, 0)]\<rparr>,
        \<lparr>conn_src = ''B.y'', conn_tgt = ''C.x'', conn_cycle_arrows = None\<rparr>]"
    "pathnames_of d = [''A'', ''B'']"
  by (simp add: ex_defs)

lemma example_root_group:
  "root_group_of (System example_root) = Some (example_group [], example_subs)"
  by (simp add: example_root_def example_group_def)

lemma example_conns:
  "g_conn_global_abs_in2out (example_group []) =
     [(''C.x'', Some ''B.y''), (''B.x'', Some ''A.y''), (''A.x'', Some ''B.y''),
      (''A.z'', None)]"
  by (simp add: example_group_def)

text \<open>
  C1 as stated fails on the example: the entry for \<open>A.x\<close> (source \<open>B.y\<close>) comes
  before the entry for \<open>B.x\<close> (source \<open>A.y\<close>), so the (source, target) pairs descend.
\<close>

theorem connections_sorted_by_source_counterexample:
  "\<not> sorted (map src_tgt (connections_of (returned_dict
         (get_viewer_data example_ext (System example_root)))))"
proof -
  obtain d where "returned (get_viewer_data example_ext (System example_root)) = Inr d"
    and "connections_of d =
       [\<lparr>conn_src = ''B.y'', conn_tgt = ''A.x'', conn_cycle_arrows = Some [(0, 1)]\<rparr>,
        \<lparr>conn_src = ''A.y'', conn_tgt = ''B.x'', conn_cycle_arrows = Some [(1, 0)]\<rparr>,
        \<lparr>conn_src = ''B.y'', conn_tgt = ''C.x'', conn_cycle_arrows = None\<rparr>]"
    by (rule example_run)
  then show ?thesis by (simp add: returned_dict_def src_tgt_def)
qed

text \<open>The example: the targets are \<open>A.x\<close>, \<open>B.x\<close>, \<open>C.x\<close>.\<close>

theorem connections_sorted_by_target_witness:
  "root_group_of (System example_root) = Some (example_group [], example_subs)
   \<and> distinct (map fst (g_conn_global_abs_in2out (example_group [])))
   \<and> (\<exists>d. returned (get_viewer_data example_ext (System example_root)) = Inr d
          \<and> map conn_tgt (connections_of d) = [''A.x'', ''B.x'', ''C.x'']
          \<and> sorted_wrt (<) (map conn_tgt (connections_of d)))"
proof -
  obtain d where r: "returned (get_viewer_data example_ext (System example_root)) = Inr d"
    and c: "connections_of d =
       [\<lparr>conn_src = ''B.y'', conn_tgt = ''A.x'', conn_cycle_arrows = Some [(0, 1)]\<rparr>,
        \<lparr>conn_src = ''A.y'', conn_tgt = ''B.x'', conn_cycle_arrows = Some [(1, 0)]\<rparr>,
        \<lparr>conn_src = ''B.y'', conn_tgt = ''C.x'', conn_cycle_arrows = None\<rparr>]"
    by (rule example_run)
  have k: "distinct (map fst (g_conn_global_abs_in2out (example_group [])))"
    by (simp add: example_conns)
  from connections_sorted_by_target[OF example_root_group r k]
  have s: "sorted_wrt (<) (map conn_tgt (connections_of d))" .
  have m: "map conn_tgt (connections_of d) = [''A.x'', ''B.x'', ''C.x'']" by (simp add: c)
  show ?thesis
    by (intro conjI exI[of _ d]) (rule example_root_group k r m s)+
qed

text \<open>The example: \<open>A.z\<close> has no entry, \<open>B.x\<close> has one, from \<open>A.y\<close>.\<close>

theorem unsourced_inputs_omitted_witness:
  "root_group_of (System example_root) = Some (example_group [], example_subs)
   \<and> distinct (map fst (g_conn_global_abs_in2out (example_group [])))
   \<and> (''A.z'', None) \<in> set (g_conn_global_abs_in2out (example_group []))
   \<and> (''B.x'', Some ''A.y'') \<in> set (g_conn_global_abs_in2out (example_group []))
   \<and> (\<exists>d c. returned (get_viewer_data example_ext (System example_root)) = Inr d
          \<and> ''A.z'' \<notin> conn_tgt ` set (connections_of d)
          \<and> filter (\<lambda>c. conn_tgt c = ''B.x'') (connections_of d) = [c]
          \<and> conn_src c = ''A.y'')"
proof -
  obtain d where r: "returned (get_viewer_data example_ext (System example_root)) = Inr d"
    by (rule example_run)
  have k: "distinct (map fst (g_conn_global_abs_in2out (example_group [])))"
    by (simp add: example_conns)
  have n: "(''A.z'', None) \<in> set (g_conn_global_abs_in2out (example_group []))"
    by (simp add: example_conns)
  have s: "(''B.x'', Some ''A.y'') \<in> set (g_conn_global_abs_in2out (example_group []))"
    by (simp add: example_conns)
  note t = unsourced_inputs_omitted[OF example_root_group r k]
  note t1 = t[THEN conjunct1, rule_format, OF n]
  note t2 = t[THEN conjunct2, rule_format, OF s]
  have 1: "''A.z'' \<notin> conn_tgt ` set (connections_of d)"
  proof
    assume "''A.z'' \<in> conn_tgt ` set (connections_of d)"
    then obtain c where "c \<in> set (connections_of d)" "conn_tgt c = ''A.z''"
      by (auto simp: image_iff)
    with t1 show False by simp
  qed
  from t2 obtain c where
    2: "filter (\<lambda>c. conn_tgt c = ''B.x'') (connections_of d) = [c]"
    and 3: "conn_src c = ''A.y''"
    by (elim exE conjE)
  show ?thesis
    by (intro conjI exI[of _ d] exI[of _ c]) (rule example_root_group k n s r 1 2 3)+
qed


subsection \<open>Failing fast on overlapping components\<close>

lemma scc_loop_skip:
  "\<not> (src \<in> li \<and> tgt \<in> li) \<Longrightarrow>
     scc_loop G orders src tgt (li # lis) count st el
       = scc_loop G orders src tgt lis count st el"
  by auto

lemma scc_loop_second_match:
  "src \<in> li \<Longrightarrow> tgt \<in> li \<Longrightarrow> 0 < count \<Longrightarrow>
     scc_loop G orders src tgt (li # lis) count st el = Inl (ValueError ''Count greater than 1'')"
  by simp

lemma scc_loop_first_match:
  "src \<in> li \<Longrightarrow> tgt \<in> li \<Longrightarrow>
     scc_loop G orders src tgt (li # lis) 0 st el =
       (case getitem orders tgt of
          Inl e \<Rightarrow> Inl e
        | Inr exe_tgt \<Rightarrow>
           (case getitem orders src of
              Inl e \<Rightarrow> Inl e
            | Inr exe_src \<Rightarrow>
               (case window_nodes orders li (min exe_tgt exe_src) (max exe_tgt exe_src) of
                  Inl e \<Rightarrow> Inl e
                | Inr nodes \<Rightarrow>
                   (case cycle_edges (src @ '' '' @ tgt) (subgraph_edges G nodes) st el of
                      Inl e \<Rightarrow> Inl e
                    | Inr (st', el') \<Rightarrow> scc_loop G orders src tgt lis (0 + 1) st' el'))))"
  by simp

lemma scc_loop_counted:
  "0 < count \<Longrightarrow> \<exists>li \<in> set lis. src \<in> li \<and> tgt \<in> li \<Longrightarrow>
     isl (scc_loop G orders src tgt lis count st el)"
proof (induction lis arbitrary: st el)
  case Nil
  then show ?case by simp
next
  case (Cons li lis)
  show ?case
  proof (cases "src \<in> li \<and> tgt \<in> li")
    case True
    with Cons.prems(1) show ?thesis by (simp only: scc_loop_second_match sum.disc)
  next
    case False
    with Cons.prems(2) have "\<exists>li \<in> set lis. src \<in> li \<and> tgt \<in> li" by auto
    from Cons.IH[OF Cons.prems(1) this] show ?thesis
      by (simp only: scc_loop_skip[OF False])
  qed
qed

lemma scc_loop_two_matches:
  "2 \<le> length (filter (\<lambda>li. src \<in> li \<and> tgt \<in> li) lis) \<Longrightarrow>
     isl (scc_loop G orders src tgt lis 0 st el)"
proof (induction lis arbitrary: st el)
  case Nil
  then show ?case by simp
next
  case (Cons li lis)
  show ?case
  proof (cases "src \<in> li \<and> tgt \<in> li")
    case True
    with Cons.prems have "1 \<le> length (filter (\<lambda>li. src \<in> li \<and> tgt \<in> li) lis)" by simp
    then have "filter (\<lambda>li. src \<in> li \<and> tgt \<in> li) lis \<noteq> []" by auto
    then have m: "\<exists>li \<in> set lis. src \<in> li \<and> tgt \<in> li" by (simp add: filter_empty_conv)
    have n: "\<And>st' el'. isl (scc_loop G orders src tgt lis (Suc 0) st' el')"
      by (rule scc_loop_counted[OF _ m]) simp
    from True have t: "src \<in> li" "tgt \<in> li" by simp_all
    show ?thesis
      unfolding scc_loop_first_match[OF t]
      by (simp add: n split: sum.splits prod.splits)
  next
    case False
    then have "filter (\<lambda>li. src \<in> li \<and> tgt \<in> li) (li # lis)
                 = filter (\<lambda>li. src \<in> li \<and> tgt \<in> li) lis"
      by auto
    with Cons.prems have "2 \<le> length (filter (\<lambda>li. src \<in> li \<and> tgt \<in> li) lis)" by simp
    from Cons.IH[OF this] show ?thesis by (simp only: scc_loop_skip[OF False])
  qed
qed

lemma connections_loop_fails:
  "(in_abs, Some out_abs) \<in> set items \<Longrightarrow>
   2 \<le> length (filter (\<lambda>li. rsplit_head out_abs \<in> li \<and> rsplit_head in_abs \<in> li) sl) \<Longrightarrow>
     isl (connections_loop G sl orders items st cl)"
proof (induction G sl orders items st cl rule: connections_loop.induct)
  case (1 G sl orders st cl)
  then show ?case by simp
next
  case (2 G sl orders i items st cl)
  then show ?case by simp
next
  case (3 G sl orders i out items st cl)
  show ?case
  proof (cases "i = in_abs \<and> out = out_abs")
    case True
    with scc_loop_two_matches[OF "3.prems"(2), of G orders st "[]"] show ?thesis
      by (cases "scc_loop G orders (rsplit_head out_abs) (rsplit_head in_abs) sl 0 st []")
         simp_all
  next
    case False
    with "3.prems"(1) have m: "(in_abs, Some out_abs) \<in> set items" by auto
    show ?thesis
    proof (cases "scc_loop G orders (rsplit_head out) (rsplit_head i) sl 0 st []")
      case (Inl e)
      then show ?thesis by simp
    next
      case (Inr x)
      obtain st1 el where x: "x = (st1, el)" by (cases x)
      from "3.IH"[OF Inr[unfolded x] refl m "3.prems"(2)] Inr x show ?thesis by simp
    qed
  qed
qed

lemma two_distinct_members:
  "a \<in> set xs \<Longrightarrow> b \<in> set xs \<Longrightarrow> a \<noteq> b \<Longrightarrow> P a \<Longrightarrow> P b \<Longrightarrow> 2 \<le> length (filter P xs)"
proof -
  assume a: "a \<in> set xs" "b \<in> set xs" "a \<noteq> b" "P a" "P b"
  then have "{a, b} \<subseteq> set (filter P xs)" by simp
  then have "card {a, b} \<le> card (set (filter P xs))" by (intro card_mono) simp_all
  also have "\<dots> \<le> length (filter P xs)" by (rule card_length)
  finally show ?thesis using a(3) by simp
qed

lemma root_viewer_data_fails:
  assumes "(in_abs, Some out_abs) \<in> set (g_conn_global_abs_in2out g)"
    and "2 \<le> length (filter (\<lambda>li. rsplit_head out_abs \<in> li \<and> rsplit_head in_abs \<in> li)
           (filter (\<lambda>s. card s > 1) (strongly_connected_components ext (compute_sys_graph ext
              (Group (g\<lparr> g_conn_global_abs_in2out := sort (g_conn_global_abs_in2out g) \<rparr>) subs)))))"
  shows "isl (fst (root_viewer_data ext g subs drv))"
proof (cases "get_tree_dict (Group g subs) Map.empty 0 False")
  case (Inl e)
  then show ?thesis unfolding root_viewer_data_def by (simp del: get_tree_dict.simps)
next
  case (Inr x)
  obtain tree orders idx where x: "x = (tree, orders, idx)" by (cases x)
  let ?r = "Group (g\<lparr> g_conn_global_abs_in2out := sort (g_conn_global_abs_in2out g) \<rparr>) subs"
  from assms(1) have m: "(in_abs, Some out_abs) \<in> set (sort (g_conn_global_abs_in2out g))"
    by simp
  from connections_loop_fails[OF m assms(2), of "compute_sys_graph ext ?r" orders "([], Map.empty)" "[]"]
  obtain e where "connections_loop (compute_sys_graph ext ?r)
      (filter (\<lambda>s. card s > 1) (strongly_connected_components ext (compute_sys_graph ext ?r)))
      orders (sort (g_conn_global_abs_in2out g)) ([], Map.empty) [] = Inl e"
    by (auto simp: isl_def)
  then show ?thesis
    unfolding root_viewer_data_def Let_def Inr x
    by (simp del: get_tree_dict.simps get_declare_partials.simps split: sum.splits)
qed

text \<open>
  C4. For a root group: when a connection with a source has the owners of its source and
  of its target both in two different sets of the strongly connected components (each
  of more than one member, as those \<^verbatim>\<open>scc_list\<close> keeps), \<^verbatim>\<open>_get_viewer_data\<close> raises
  and returns no dict. (It raises \<^verbatim>\<open>ValueError\<close> at the second set, unless a
  \<^verbatim>\<open>KeyError\<close> came first.)
\<close>

theorem overlapping_sccs_fail_fast:
  assumes "root_group_of ds = Some (g, subs)"
    and "(in_abs, Some out_abs) \<in> set (g_conn_global_abs_in2out g)"
    and "scc = strongly_connected_components ext (compute_sys_graph ext
           (Group (g\<lparr> g_conn_global_abs_in2out := sort (g_conn_global_abs_in2out g) \<rparr>) subs))"
    and "li1 \<in> set scc" and "li2 \<in> set scc" and "li1 \<noteq> li2"
    and "card li1 > 1" and "card li2 > 1"
    and "rsplit_head out_abs \<in> li1" and "rsplit_head in_abs \<in> li1"
    and "rsplit_head out_abs \<in> li2" and "rsplit_head in_abs \<in> li2"
  shows "\<exists>e. returned (get_viewer_data ext ds) = Inl e"
proof -
  let ?P = "\<lambda>li. rsplit_head out_abs \<in> li \<and> rsplit_head in_abs \<in> li"
  let ?sl = "filter (\<lambda>s. card s > 1) scc"
  from assms have "li1 \<in> set ?sl" "li2 \<in> set ?sl" "?P li1" "?P li2" by simp_all
  with assms(6) have "2 \<le> length (filter ?P ?sl)"
    by (intro two_distinct_members[of li1 _ li2])
  from root_viewer_data_fails[OF assms(2) this[unfolded assms(3)]]
  have "\<And>drv. isl (fst (root_viewer_data ext g subs drv))" .
  then have "isl (returned (get_viewer_data ext ds))"
    by (simp add: get_viewer_data_root[OF assms(1)])
  then show ?thesis by (cases "returned (get_viewer_data ext ds)") simp_all
qed


text \<open>
  The example with two sets that both hold \<open>A\<close> and \<open>B\<close>: the call raises
  \<^verbatim>\<open>ValueError\<close>.
\<close>

theorem overlapping_sccs_fail_fast_witness:
  "root_group_of (System example_root) = Some (example_group [], example_subs)
   \<and> (''A.x'', Some ''B.y'') \<in> set (g_conn_global_abs_in2out (example_group []))
   \<and> strongly_connected_components overlapping_ext (compute_sys_graph overlapping_ext
        (Group ((example_group [])\<lparr> g_conn_global_abs_in2out :=
                   sort (g_conn_global_abs_in2out (example_group [])) \<rparr>) example_subs))
      = [{''A'', ''B''}, {''A'', ''B'', ''C''}]
   \<and> {''A'', ''B''} \<noteq> {''A'', ''B'', ''C''}
   \<and> card {''A'', ''B''} > 1 \<and> card {''A'', ''B'', ''C''} > 1
   \<and> rsplit_head ''B.y'' = ''B'' \<and> rsplit_head ''A.x'' = ''A''
   \<and> (\<exists>e. returned (get_viewer_data overlapping_ext (System example_root)) = Inl e)
   \<and> returned (get_viewer_data overlapping_ext (System example_root))
        = Inl (ValueError ''Count greater than 1'')"
proof -
  let ?scc = "strongly_connected_components overlapping_ext (compute_sys_graph overlapping_ext
        (Group ((example_group [])\<lparr> g_conn_global_abs_in2out :=
                   sort (g_conn_global_abs_in2out (example_group [])) \<rparr>) example_subs))"
  have c: "(''A.x'', Some ''B.y'') \<in> set (g_conn_global_abs_in2out (example_group []))"
    by (simp add: example_conns)
  have s: "?scc = [{''A'', ''B''}, {''A'', ''B'', ''C''}]"
    by (simp add: overlapping_ext_def example_ext_def)
  have m1: "{''A'', ''B''} \<in> set ?scc" and m2: "{''A'', ''B'', ''C''} \<in> set ?scc"
    unfolding s by simp_all
  have n: "{''A'', ''B''} \<noteq> {''A'', ''B'', ''C''}"
  proof
    assume eq: "{''A'', ''B''} = {''A'', ''B'', ''C''}"
    have "''C'' \<in> {''A'', ''B'', ''C''}" by simp
    then have "''C'' \<in> {''A'', ''B''}" by (simp only: eq[symmetric])
    then show False by simp
  qed
  have k1: "card {''A'', ''B''} > 1" and k2: "card {''A'', ''B'', ''C''} > 1" by simp_all
  have h1: "rsplit_head ''B.y'' = ''B''" and h2: "rsplit_head ''A.x'' = ''A''"
    by (simp_all add: rsplit_head_def)
  have i1: "rsplit_head ''B.y'' \<in> {''A'', ''B''}" "rsplit_head ''A.x'' \<in> {''A'', ''B''}"
    "rsplit_head ''B.y'' \<in> {''A'', ''B'', ''C''}" "rsplit_head ''A.x'' \<in> {''A'', ''B'', ''C''}"
    by (simp_all add: h1 h2)
  from overlapping_sccs_fail_fast[OF example_root_group c refl m1 m2 n k1 k2 i1]
  have e: "\<exists>e. returned (get_viewer_data overlapping_ext (System example_root)) = Inl e" .
  have v: "returned (get_viewer_data overlapping_ext (System example_root))
        = Inl (ValueError ''Count greater than 1'')"
    by (simp add: ex_defs)
  show ?thesis
    by (intro conjI) (rule example_root_group c s n k1 k2 h1 h2 e v)+
qed

subsection \<open>The \<^verbatim>\<open>cycle_arrows\<close> field\<close>

lemma sort_eq_Nil: "sort xs = [] \<longleftrightarrow> xs = []"
  by (metis length_sort length_0_conv)

lemma connections_loop_registered:
  "connections_loop G sl orders items st cl = Inr (st', cl') \<Longrightarrow>
     cl' = cl @ map (\<lambda>(out_abs, in_abs, el). emit_connection out_abs in_abs el)
                    (registered G sl orders items st)"
proof (induction G sl orders items st cl rule: connections_loop.induct)
  case (1 G sl orders st cl)
  then show ?case by simp
next
  case (2 G sl orders in_abs items st cl)
  then show ?case by simp
next
  case (3 G sl orders in_abs out_abs items st cl)
  from "3.prems" obtain st1 el where
    s: "scc_loop G orders (rsplit_head out_abs) (rsplit_head in_abs) sl 0 st [] = Inr (st1, el)"
    and r: "connections_loop G sl orders items st1 (cl @ [emit_connection out_abs in_abs el])
              = Inr (st', cl')"
    by (auto split: sum.splits)
  from "3.IH"[OF s refl r] s show ?case by simp
qed

lemma viewer_registered:
  assumes "root_group_of ds = Some (g, subs)"
      and "returned (get_viewer_data ext ds) = Inr d"
      and "get_tree_dict (Group g subs) Map.empty 0 False = Inr (tree, orders, idx)"
  shows "connections_of d =
           map (\<lambda>(out_abs, in_abs, el). emit_connection out_abs in_abs el)
             (registered
                (compute_sys_graph ext (Group
                   (g\<lparr> g_conn_global_abs_in2out := sort (g_conn_global_abs_in2out g) \<rparr>) subs))
                (filter (\<lambda>s. card s > 1) (strongly_connected_components ext
                   (compute_sys_graph ext (Group
                      (g\<lparr> g_conn_global_abs_in2out := sort (g_conn_global_abs_in2out g) \<rparr>)
                      subs))))
                orders (sort (g_conn_global_abs_in2out g)) ([], Map.empty))"
proof -
  from get_viewer_data_root[OF assms(1), of ext] assms(2)
  have "fst (root_viewer_data ext g subs (driver_dict_of ds)) = Inr d" by simp
  then obtain r where
    "root_viewer_data ext g subs (driver_dict_of ds) = (Inr d, r)"
    by (cases "root_viewer_data ext g subs (driver_dict_of ds)") simp
  then obtain tree' orders' idx' spl spd where
    t: "get_tree_dict (Group g subs) Map.empty 0 False = Inr (tree', orders', idx')"
    and l: "connections_loop
        (compute_sys_graph ext
           (Group (g\<lparr> g_conn_global_abs_in2out := sort (g_conn_global_abs_in2out g) \<rparr>) subs))
        (filter (\<lambda>s. card s > 1) (strongly_connected_components ext (compute_sys_graph ext
           (Group (g\<lparr> g_conn_global_abs_in2out := sort (g_conn_global_abs_in2out g) \<rparr>) subs))))
        orders' (sort (g_conn_global_abs_in2out g)) ([], Map.empty) []
      = Inr ((spl, spd), connections_of d)"
    by (rule root_viewer_data_Inr)
  from t assms(3) have o: "orders' = orders" by simp
  from connections_loop_registered[OF l] show ?thesis unfolding o by simp
qed

text \<open>
  C6. In a returned snapshot of a root group, the entries of \<^verbatim>\<open>connections_list\<close> are,
  one for one and in order, the connections with a source; the \<open>k\<close>-th entry has the
  source and the target of the \<open>k\<close>-th such connection, and with \<open>el\<close> the cycle arrows
  the loop over \<^verbatim>\<open>scc_list\<close> has registered for that connection: if there is at least
  one, the entry has the field \<^verbatim>\<open>cycle_arrows\<close>, holding these arrows sorted ascending;
  if there is none, the entry has no field \<^verbatim>\<open>cycle_arrows\<close>. No entry has an empty
  \<^verbatim>\<open>cycle_arrows\<close>.
\<close>

theorem cycle_arrows_field:
  assumes "root_group_of ds = Some (g, subs)"
      and "returned (get_viewer_data ext ds) = Inr d"
      and "get_tree_dict (Group g subs) Map.empty 0 False = Inr (tree, orders, idx)"
      and "G = compute_sys_graph ext (Group
                (g\<lparr> g_conn_global_abs_in2out := sort (g_conn_global_abs_in2out g) \<rparr>) subs)"
      and "regs = registered G
                    (filter (\<lambda>s. card s > 1) (strongly_connected_components ext G))
                    orders (sort (g_conn_global_abs_in2out g)) ([], Map.empty)"
  shows "length (connections_of d) = length regs
       \<and> (\<forall>k out_abs in_abs el.
             k < length regs \<longrightarrow> regs ! k = (out_abs, in_abs, el) \<longrightarrow>
               conn_src (connections_of d ! k) = out_abs
             \<and> conn_tgt (connections_of d ! k) = in_abs
             \<and> (el \<noteq> [] \<longrightarrow>
                  conn_cycle_arrows (connections_of d ! k) = Some (sort el)
                  \<and> sorted (sort el))
             \<and> (el = [] \<longrightarrow> conn_cycle_arrows (connections_of d ! k) = None))
       \<and> (\<forall>c \<in> set (connections_of d). conn_cycle_arrows c \<noteq> Some [])"
proof -
  have c: "connections_of d =
      map (\<lambda>(out_abs, in_abs, el). emit_connection out_abs in_abs el) regs"
    unfolding assms(5) assms(4) by (rule viewer_registered[OF assms(1,2,3)])
  have 1: "length (connections_of d) = length regs" by (simp add: c)
  have 2: "\<forall>k out_abs in_abs el.
             k < length regs \<longrightarrow> regs ! k = (out_abs, in_abs, el) \<longrightarrow>
               conn_src (connections_of d ! k) = out_abs
             \<and> conn_tgt (connections_of d ! k) = in_abs
             \<and> (el \<noteq> [] \<longrightarrow>
                  conn_cycle_arrows (connections_of d ! k) = Some (sort el)
                  \<and> sorted (sort el))
             \<and> (el = [] \<longrightarrow> conn_cycle_arrows (connections_of d ! k) = None)"
  proof (intro allI impI)
    fix k out_abs in_abs el
    assume k: "k < length regs" and e: "regs ! k = (out_abs, in_abs, el)"
    from k e have n: "connections_of d ! k = emit_connection out_abs in_abs el"
      by (simp add: c)
    show "conn_src (connections_of d ! k) = out_abs
             \<and> conn_tgt (connections_of d ! k) = in_abs
             \<and> (el \<noteq> [] \<longrightarrow>
                  conn_cycle_arrows (connections_of d ! k) = Some (sort el)
                  \<and> sorted (sort el))
             \<and> (el = [] \<longrightarrow> conn_cycle_arrows (connections_of d ! k) = None)"
      unfolding n by (simp add: emit_connection_def)
  qed
  have 3: "\<forall>c \<in> set (connections_of d). conn_cycle_arrows c \<noteq> Some []"
    unfolding c by (auto simp: emit_connection_def sort_eq_Nil split: if_splits)
  from 1 2 3 show ?thesis by (intro conjI)
qed

lemma ring_root_group:
  "root_group_of (System (Group ring_group example_subs)) = Some (ring_group, example_subs)"
  by (simp add: ring_group_def example_group_def)

lemma ring_run:
  obtains d tree where
    "returned (get_viewer_data ring_ext (System (Group ring_group example_subs))) = Inr d"
    "get_tree_dict (Group ring_group example_subs) Map.empty 0 False
       = Inr (tree, [''A'' \<mapsto> 0, ''B'' \<mapsto> 1, ''C'' \<mapsto> 2], 3)"
  by (simp add: ring_group_def ring_ext_def ex_defs numeral_2_eq_2)

lemma ring_registered:
  "registered [(''B'', ''C''), (''A'', ''B''), (''C'', ''A''), (''A'', ''C'')]
      [{''A'', ''B'', ''C''}] [''A'' \<mapsto> 0, ''B'' \<mapsto> 1, ''C'' \<mapsto> 2]
      [(''B.x'', Some ''A.y''), (''C.x'', Some ''A.y'')] ([], Map.empty)
    = [(''A.y'', ''B.x'', []), (''A.y'', ''C.x'', [(0, 1), (2, 0), (1, 2)])]"
  by (simp add: ex_defs)

text \<open>
  The ring: no arrow is registered for the connection into \<open>B.x\<close>, whose entry has no
  \<^verbatim>\<open>cycle_arrows\<close>; three are registered for the connection into \<open>C.x\<close>, in the
  order \<open>(0, 1)\<close>, \<open>(2, 0)\<close>, \<open>(1, 2)\<close>, and its entry holds them sorted.
\<close>

theorem cycle_arrows_field_witness:
  "root_group_of (System (Group ring_group example_subs)) = Some (ring_group, example_subs)
   \<and> (\<exists>d tree orders idx regs.
         returned (get_viewer_data ring_ext (System (Group ring_group example_subs))) = Inr d
       \<and> get_tree_dict (Group ring_group example_subs) Map.empty 0 False
           = Inr (tree, orders, idx)
       \<and> regs = registered
                  (compute_sys_graph ring_ext (Group (ring_group\<lparr> g_conn_global_abs_in2out :=
                      sort (g_conn_global_abs_in2out ring_group) \<rparr>) example_subs))
                  (filter (\<lambda>s. card s > 1) (strongly_connected_components ring_ext
                     (compute_sys_graph ring_ext (Group (ring_group\<lparr> g_conn_global_abs_in2out :=
                        sort (g_conn_global_abs_in2out ring_group) \<rparr>) example_subs))))
                  orders (sort (g_conn_global_abs_in2out ring_group)) ([], Map.empty)
       \<and> regs = [(''A.y'', ''B.x'', []), (''A.y'', ''C.x'', [(0, 1), (2, 0), (1, 2)])]
       \<and> length (connections_of d) = 2
       \<and> conn_src (connections_of d ! 0) = ''A.y'' \<and> conn_tgt (connections_of d ! 0) = ''B.x''
       \<and> conn_cycle_arrows (connections_of d ! 0) = None
       \<and> conn_src (connections_of d ! 1) = ''A.y'' \<and> conn_tgt (connections_of d ! 1) = ''C.x''
       \<and> conn_cycle_arrows (connections_of d ! 1) = Some [(0, 1), (1, 2), (2, 0)])"
proof -
  obtain d tree where
    r: "returned (get_viewer_data ring_ext (System (Group ring_group example_subs))) = Inr d"
    and t: "get_tree_dict (Group ring_group example_subs) Map.empty 0 False
       = Inr (tree, [''A'' \<mapsto> 0, ''B'' \<mapsto> 1, ''C'' \<mapsto> 2], 3)"
    by (rule ring_run)
  let ?orders = "[''A'' \<mapsto> 0 :: nat, ''B'' \<mapsto> 1, ''C'' \<mapsto> 2]"
  let ?G = "compute_sys_graph ring_ext (Group (ring_group\<lparr> g_conn_global_abs_in2out :=
              sort (g_conn_global_abs_in2out ring_group) \<rparr>) example_subs)"
  let ?regs = "registered ?G
      (filter (\<lambda>s. card s > 1) (strongly_connected_components ring_ext ?G))
      ?orders (sort (g_conn_global_abs_in2out ring_group)) ([], Map.empty)"
  have G: "\<And>s. compute_sys_graph ring_ext s
              = [(''B'', ''C''), (''A'', ''B''), (''C'', ''A''), (''A'', ''C'')]"
    by (simp add: ring_ext_def)
  have sl: "\<And>H. filter (\<lambda>s. card s > 1) (strongly_connected_components ring_ext H)
              = [{''A'', ''B'', ''C''}]"
    by (simp add: ring_ext_def)
  have it: "sort (g_conn_global_abs_in2out ring_group)
              = [(''B.x'', Some ''A.y''), (''C.x'', Some ''A.y'')]"
    by (simp add: ring_group_def)
  have rg: "?regs = [(''A.y'', ''B.x'', []), (''A.y'', ''C.x'', [(0, 1), (2, 0), (1, 2)])]"
    unfolding G sl it by (rule ring_registered)
  note th = cycle_arrows_field[OF ring_root_group r t refl refl]
  from th have "length (connections_of d) = length ?regs" by (rule conjunct1)
  then have 1: "length (connections_of d) = 2" unfolding rg by simp
  have k0: "0 < length ?regs" and e0: "?regs ! 0 = (''A.y'', ''B.x'', [])"
    and k1: "1 < length ?regs"
    and e1: "?regs ! 1 = (''A.y'', ''C.x'', [(0, 1), (2, 0), (1, 2)])"
    unfolding rg by simp_all
  note f0 = th[THEN conjunct2, THEN conjunct1, rule_format, OF k0 e0]
  note f1 = th[THEN conjunct2, THEN conjunct1, rule_format, OF k1 e1]
  from f0 have 2: "conn_src (connections_of d ! 0) = ''A.y''"
    and 3: "conn_tgt (connections_of d ! 0) = ''B.x''"
    and 4: "conn_cycle_arrows (connections_of d ! 0) = None" by simp_all
  from f1 have 5: "conn_src (connections_of d ! 1) = ''A.y''"
    and 6: "conn_tgt (connections_of d ! 1) = ''C.x''"
    and 7: "conn_cycle_arrows (connections_of d ! 1) = Some [(0, 1), (1, 2), (2, 0)]"
    by simp_all
  show ?thesis
    by (intro conjI exI[of _ d] exI[of _ tree] exI[of _ ?orders] exI[of _ 3] exI[of _ ?regs])
       (rule ring_root_group r t refl rg 1 2 3 4 5 6 7)+
qed


subsection \<open>What the call does to its argument\<close>

lemma root_viewer_data_snd:
  "snd (root_viewer_data ext g subs drv) =
     (if isl (get_tree_dict (Group g subs) Map.empty 0 False) then Group g subs
      else if isl (fst (root_viewer_data ext g subs drv))
      then after_compute_sys_graph ext (sorted_root g subs)
      else after_get_responses ext (after_get_design_vars ext
             (after_compute_sys_graph ext (sorted_root g subs))))"
  unfolding root_viewer_data_def Let_def sorted_root_def
  by (simp del: get_tree_dict.simps get_declare_partials.simps sys_var_abs2prom.simps
        split: sum.splits prod.splits)

lemma source_after_root:
  assumes "root_group_of ds = Some (g, subs)"
  shows "source_after (get_viewer_data ext ds) =
     (if isl (get_tree_dict (Group g subs) Map.empty 0 False) then ds
      else if isl (returned (get_viewer_data ext ds))
      then put_root ds (after_compute_sys_graph ext (sorted_root g subs))
      else put_root ds (after_get_responses ext (after_get_design_vars ext
             (after_compute_sys_graph ext (sorted_root g subs)))))"
proof (cases ds)
  case (Problem p)
  with assms have m: "p_model p = Group g subs" by (simp split: system.splits)
  then have e: "p\<lparr> p_model := Group g subs \<rparr> = p" by (cases p) simp
  have sa: "source_after (get_viewer_data ext ds) =
      Problem (p\<lparr> p_model := snd (root_viewer_data ext g subs
                 (problem_driver_dict (p_driver p))) \<rparr>)"
    using Problem m by (simp add: get_viewer_data_def case_prod_unfold)
  have rt: "returned (get_viewer_data ext ds) =
      fst (root_viewer_data ext g subs (problem_driver_dict (p_driver p)))"
    using get_viewer_data_root[OF assms, of ext] Problem by simp
  show ?thesis
    unfolding sa rt root_viewer_data_snd using Problem e by (simp del: get_tree_dict.simps)
next
  case (System s)
  with assms have s: "s = Group g subs" and e: "g_pathname g = []"
    by (cases s; simp split: if_splits)+
  have sa: "source_after (get_viewer_data ext ds) =
      System (snd (root_viewer_data ext g subs no_driver_dict))"
    using System s e by (simp add: get_viewer_data_def case_prod_unfold)
  have rt: "returned (get_viewer_data ext ds) =
      fst (root_viewer_data ext g subs no_driver_dict)"
    using get_viewer_data_root[OF assms, of ext] System by simp
  show ?thesis
    unfolding sa rt root_viewer_data_snd using System s by (simp del: get_tree_dict.simps)
next
  case (Filename f)
  with assms show ?thesis by simp
next
  case (OtherObject x)
  with assms show ?thesis by simp
qed

lemma source_after_no_root:
  assumes "root_group_of ds = None"
  shows "source_after (get_viewer_data ext ds) = ds"
  using assms
  by (cases ds rule: root_group_of.cases)
     (simp_all add: get_viewer_data_def split: system.splits if_splits)

lemma map_of_sort:
  assumes "distinct (map fst (xs :: (string \<times> string option) list))"
  shows "map_of (sort xs) = map_of xs"
proof -
  from sort_keys_strict[OF assms] have "distinct (map fst (sort xs))"
    by (simp add: strict_sorted_iff)
  with assms show ?thesis by (simp add: map_of_inject_set)
qed

lemma root_conns_put_sorted:
  assumes "root_group_of ds = Some (g, subs)"
  shows "root_conns ds = g_conn_global_abs_in2out g"
    and "root_conns (put_root ds (sorted_root g subs)) = sort (g_conn_global_abs_in2out g)"
  using assms
  by (cases ds rule: root_group_of.cases;
      simp add: sorted_root_def split: system.splits if_splits)+

lemma example_tree_built:
  "\<exists>t. get_tree_dict (Group (example_group []) example_subs) Map.empty 0 False = Inr t"
  by (simp add: ex_defs)

text \<open>
  C2, as the code has it. A call with no root group to work on (a problem whose model is
  a component, a group with a path name, a file name, any other object), and a call for
  which building the tree raises, leave the argument as it was. Once the tree of a root
  group is built, the call itself assigns to one attribute of the model: line 234
  replaces the connection dict of the root group by the dict of the sorted items. It
  then calls \<^verbatim>\<open>compute_sys_graph\<close> on the root group and, when the loop over the
  connections has not raised, \<^verbatim>\<open>get_design_vars\<close> and \<^verbatim>\<open>get_responses\<close>; the model
  is left as these calls leave the root group with the sorted connections. When each of
  the three calls leaves that root group as it finds it, the model after the call is the
  model before the call but for its connection dict, which holds the same source for
  every input as before: only its iteration order has changed.
\<close>

theorem model_changed_in_connection_order_only:
  "(root_group_of ds = None \<longrightarrow> source_after (get_viewer_data ext ds) = ds)
   \<and> (root_group_of ds = Some (g, subs) \<longrightarrow>
        (isl (get_tree_dict (Group g subs) Map.empty 0 False) \<longrightarrow>
           source_after (get_viewer_data ext ds) = ds)
      \<and> (\<not> isl (get_tree_dict (Group g subs) Map.empty 0 False) \<longrightarrow>
           (isl (returned (get_viewer_data ext ds)) \<longrightarrow>
              source_after (get_viewer_data ext ds) =
                put_root ds (after_compute_sys_graph ext (sorted_root g subs)))
         \<and> (\<not> isl (returned (get_viewer_data ext ds)) \<longrightarrow>
              source_after (get_viewer_data ext ds) =
                put_root ds (after_get_responses ext (after_get_design_vars ext
                              (after_compute_sys_graph ext (sorted_root g subs)))))
         \<and> (after_compute_sys_graph ext (sorted_root g subs) = sorted_root g subs \<longrightarrow>
            after_get_design_vars ext (sorted_root g subs) = sorted_root g subs \<longrightarrow>
            after_get_responses ext (sorted_root g subs) = sorted_root g subs \<longrightarrow>
              source_after (get_viewer_data ext ds) = put_root ds (sorted_root g subs)
            \<and> root_conns (source_after (get_viewer_data ext ds))
                  = sort (g_conn_global_abs_in2out g)
            \<and> (distinct (map fst (g_conn_global_abs_in2out g)) \<longrightarrow>
                 map_of (root_conns (source_after (get_viewer_data ext ds)))
                   = map_of (root_conns ds)))))"
proof (intro conjI impI)
  show "source_after (get_viewer_data ext ds) = ds" if "root_group_of ds = None"
    using that by (rule source_after_no_root)
next
  assume rg: "root_group_of ds = Some (g, subs)"
  note sa = source_after_root[OF rg, of ext]
  show "source_after (get_viewer_data ext ds) = ds"
    if "isl (get_tree_dict (Group g subs) Map.empty 0 False)"
    using sa that by (simp del: get_tree_dict.simps)
  assume t: "\<not> isl (get_tree_dict (Group g subs) Map.empty 0 False)"
  show "source_after (get_viewer_data ext ds) =
          put_root ds (after_compute_sys_graph ext (sorted_root g subs))"
    if "isl (returned (get_viewer_data ext ds))"
    using sa t that by (simp del: get_tree_dict.simps)
  show "source_after (get_viewer_data ext ds) =
          put_root ds (after_get_responses ext (after_get_design_vars ext
                        (after_compute_sys_graph ext (sorted_root g subs))))"
    if "\<not> isl (returned (get_viewer_data ext ds))"
    using sa t that by (simp del: get_tree_dict.simps)
  assume i1: "after_compute_sys_graph ext (sorted_root g subs) = sorted_root g subs"
    and i2: "after_get_design_vars ext (sorted_root g subs) = sorted_root g subs"
    and i3: "after_get_responses ext (sorted_root g subs) = sorted_root g subs"
  show 1: "source_after (get_viewer_data ext ds) = put_root ds (sorted_root g subs)"
    using sa t by (simp add: i1 i2 i3 del: get_tree_dict.simps)
  show 2: "root_conns (source_after (get_viewer_data ext ds))
             = sort (g_conn_global_abs_in2out g)"
    unfolding 1 by (rule root_conns_put_sorted(2)[OF rg])
  show "map_of (root_conns (source_after (get_viewer_data ext ds))) = map_of (root_conns ds)"
    if d: "distinct (map fst (g_conn_global_abs_in2out g))"
    unfolding 2 root_conns_put_sorted(1)[OF rg] by (rule map_of_sort[OF d])
qed

text \<open>
  C2 as stated fails on the example: after the call the root group holds its
  connections in another order than before.
\<close>

theorem model_mutated_counterexample:
  "source_after (get_viewer_data example_ext (System example_root)) \<noteq> System example_root"
proof
  assume eq: "source_after (get_viewer_data example_ext (System example_root))
                = System example_root"
  from example_tree_built obtain t where
    t: "get_tree_dict (Group (example_group []) example_subs) Map.empty 0 False = Inr t" ..
  have "source_after (get_viewer_data example_ext (System example_root))
          = put_root (System example_root) (sorted_root (example_group []) example_subs)"
    using source_after_root[OF example_root_group, of example_ext] t
    by (simp add: example_ext_def del: get_tree_dict.simps)
  with eq have "put_root (System example_root) (sorted_root (example_group []) example_subs)
                  = System example_root" by simp
  then have "root_conns (put_root (System example_root)
                 (sorted_root (example_group []) example_subs))
               = root_conns (System example_root)" by simp
  then show False by (simp add: example_root_def example_group_def sorted_root_def)
qed

text \<open>
  The example, whose three methods leave the model as they find it: the connections
  are left sorted by input, with the same sources.
\<close>

theorem model_changed_in_connection_order_only_witness:
  "root_group_of (System example_root) = Some (example_group [], example_subs)
   \<and> \<not> isl (get_tree_dict (Group (example_group []) example_subs) Map.empty 0 False)
   \<and> after_compute_sys_graph example_ext (sorted_root (example_group []) example_subs)
        = sorted_root (example_group []) example_subs
   \<and> after_get_design_vars example_ext (sorted_root (example_group []) example_subs)
        = sorted_root (example_group []) example_subs
   \<and> after_get_responses example_ext (sorted_root (example_group []) example_subs)
        = sorted_root (example_group []) example_subs
   \<and> source_after (get_viewer_data example_ext (System example_root))
        = put_root (System example_root) (sorted_root (example_group []) example_subs)
   \<and> distinct (map fst (g_conn_global_abs_in2out (example_group [])))
   \<and> map_of (root_conns (source_after (get_viewer_data example_ext (System example_root))))
        = map_of (root_conns (System example_root))
   \<and> root_conns (source_after (get_viewer_data example_ext (System example_root)))
        = [(''A.x'', Some ''B.y''), (''A.z'', None), (''B.x'', Some ''A.y''),
           (''C.x'', Some ''B.y'')]"
proof -
  from example_tree_built
  have t: "\<not> isl (get_tree_dict (Group (example_group []) example_subs) Map.empty 0 False)"
    by (auto simp del: get_tree_dict.simps)
  have i1: "after_compute_sys_graph example_ext (sorted_root (example_group []) example_subs)
        = sorted_root (example_group []) example_subs"
    and i2: "after_get_design_vars example_ext (sorted_root (example_group []) example_subs)
        = sorted_root (example_group []) example_subs"
    and i3: "after_get_responses example_ext (sorted_root (example_group []) example_subs)
        = sorted_root (example_group []) example_subs"
    by (simp_all add: example_ext_def)
  note th = model_changed_in_connection_order_only[where ds = "System example_root"
      and ext = example_ext and g = "example_group []" and subs = example_subs]
  note th3 = th[THEN conjunct2, rule_format, OF example_root_group, THEN conjunct2,
      rule_format, OF t, THEN conjunct2, THEN conjunct2, rule_format, OF i1 i2 i3]
  from th3 have 1: "source_after (get_viewer_data example_ext (System example_root))
        = put_root (System example_root) (sorted_root (example_group []) example_subs)"
    by (rule conjunct1)
  have d: "distinct (map fst (g_conn_global_abs_in2out (example_group [])))"
    by (simp add: example_group_def)
  from th3[THEN conjunct2, THEN conjunct2, rule_format, OF d]
  have 2: "map_of (root_conns (source_after (get_viewer_data example_ext (System example_root))))
        = map_of (root_conns (System example_root))" .
  from th3[THEN conjunct2, THEN conjunct1]
  have "root_conns (source_after (get_viewer_data example_ext (System example_root)))
        = sort (g_conn_global_abs_in2out (example_group []))" .
  then have 3: "root_conns (source_after (get_viewer_data example_ext (System example_root)))
        = [(''A.x'', Some ''B.y''), (''A.z'', None), (''B.x'', Some ''A.y''),
           (''C.x'', Some ''B.y'')]"
    by (simp add: example_group_def)
  show ?thesis
    by (intro conjI) (rule example_root_group t i1 i2 i3 1 d 2 3)+
qed

subsection \<open>A group as the data source\<close>

lemma root_viewer_data_driver:
  assumes "root_viewer_data ext g subs drv = (Inr d, r)"
  shows "root_viewer_data ext g subs drv' = (Inr (d(''driver'' \<mapsto> JDriver drv')), r)"
proof -
  from assms obtain tree orders idx where
    t: "get_tree_dict (Group g subs) Map.empty 0 False = Inr (tree, orders, idx)"
    unfolding root_viewer_data_def by (auto split: sum.splits simp del: get_tree_dict.simps)
  let ?r = "Group (g\<lparr> g_conn_global_abs_in2out := sort (g_conn_global_abs_in2out g) \<rparr>) subs"
  let ?r1 = "after_compute_sys_graph ext ?r"
  let ?r2 = "after_get_design_vars ext ?r1"
  let ?r3 = "after_get_responses ext ?r2"
  let ?G = "compute_sys_graph ext ?r"
  let ?sl = "filter (\<lambda>s. card s > 1) (strongly_connected_components ext ?G)"
  from assms t obtain spl spd cl where
    c: "connections_loop ?G ?sl orders (sort (g_conn_global_abs_in2out g)) ([], Map.empty) []
          = Inr ((spl, spd), cl)"
    unfolding root_viewer_data_def Let_def
    by (auto split: sum.splits prod.splits simp del: get_tree_dict.simps)
  from assms t c have r: "r = ?r3"
    and d: "d = [''tree'' \<mapsto> JTree tree,
                 ''sys_pathnames_list'' \<mapsto> JStrings spl,
                 ''connections_list'' \<mapsto> JConnections cl,
                 ''abs2prom'' \<mapsto> JAbs2prom (sys_var_abs2prom ?r1),
                 ''driver'' \<mapsto> JDriver drv,
                 ''design_vars'' \<mapsto> JObj (get_design_vars ext ?r1),
                 ''responses'' \<mapsto> JObj (get_responses ext ?r2),
                 ''declare_partials_list'' \<mapsto> JStrings (get_declare_partials ?r3)]"
    unfolding root_viewer_data_def Let_def
    by (auto simp del: get_tree_dict.simps get_declare_partials.simps sys_var_abs2prom.simps)
  have "d(''driver'' \<mapsto> JDriver drv') =
        [''tree'' \<mapsto> JTree tree,
                 ''sys_pathnames_list'' \<mapsto> JStrings spl,
                 ''connections_list'' \<mapsto> JConnections cl,
                 ''abs2prom'' \<mapsto> JAbs2prom (sys_var_abs2prom ?r1),
                 ''driver'' \<mapsto> JDriver drv',
                 ''design_vars'' \<mapsto> JObj (get_design_vars ext ?r1),
                 ''responses'' \<mapsto> JObj (get_responses ext ?r2),
                 ''declare_partials_list'' \<mapsto> JStrings (get_declare_partials ?r3)]"
    unfolding d by (rule ext) (simp del: get_declare_partials.simps sys_var_abs2prom.simps)
  then show ?thesis
    unfolding root_viewer_data_def Let_def r using t c
    by (simp del: get_tree_dict.simps get_declare_partials.simps sys_var_abs2prom.simps)
qed

text \<open>
  C3, as the code has it. A group with a path name (a subtree of a model) gets the empty
  dict, without exception or warning (line 214). A group without a path name (a root)
  that yields a dict yields one with the eight keys \<^verbatim>\<open>_get_viewer_data\<close> sets, and a
  \<^verbatim>\<open>Problem\<close> with that group as its model yields the same dict but for the entry
  \<^verbatim>\<open>driver\<close>.
\<close>

theorem composite_input_shape:
  "(g_pathname g \<noteq> [] \<longrightarrow>
      get_viewer_data ext (System (Group g subs)) =
        \<lparr> returned = Inr Map.empty, warnings = [], source_after = System (Group g subs) \<rparr>)
   \<and> (g_pathname g = [] \<longrightarrow>
        returned (get_viewer_data ext (System (Group g subs))) = Inr d \<longrightarrow>
          dom d = {''declare_partials_list'', ''responses'', ''design_vars'', ''driver'',
                   ''abs2prom'', ''connections_list'', ''sys_pathnames_list'', ''tree''}
        \<and> returned (get_viewer_data ext (Problem \<lparr> p_model = Group g subs, p_driver = drv \<rparr>))
            = Inr (d(''driver'' \<mapsto> JDriver (problem_driver_dict drv))))"
proof (intro conjI impI)
  show "get_viewer_data ext (System (Group g subs)) =
        \<lparr> returned = Inr Map.empty, warnings = [], source_after = System (Group g subs) \<rparr>"
    if "g_pathname g \<noteq> []"
    using that by (simp add: get_viewer_data_def)
next
  assume e: "g_pathname g = []"
    and r: "returned (get_viewer_data ext (System (Group g subs))) = Inr d"
  from e have rg: "root_group_of (System (Group g subs)) = Some (g, subs)" by simp
  from get_viewer_data_root[OF rg, of ext] r
  have "fst (root_viewer_data ext g subs no_driver_dict) = Inr d" by simp
  then obtain rt where v: "root_viewer_data ext g subs no_driver_dict = (Inr d, rt)"
    by (cases "root_viewer_data ext g subs no_driver_dict") simp
  then obtain tree orders idx spl spd where
    "dom d = {''declare_partials_list'', ''responses'', ''design_vars'', ''driver'',
              ''abs2prom'', ''connections_list'', ''sys_pathnames_list'', ''tree''}"
    by (rule root_viewer_data_Inr)
  then show "dom d = {''declare_partials_list'', ''responses'', ''design_vars'', ''driver'',
                   ''abs2prom'', ''connections_list'', ''sys_pathnames_list'', ''tree''}" .
  have rp: "root_group_of (Problem \<lparr> p_model = Group g subs, p_driver = drv \<rparr>) = Some (g, subs)"
    by simp
  from get_viewer_data_root[OF rp, of ext] root_viewer_data_driver[OF v, of "problem_driver_dict drv"]
  show "returned (get_viewer_data ext (Problem \<lparr> p_model = Group g subs, p_driver = drv \<rparr>))
            = Inr (d(''driver'' \<mapsto> JDriver (problem_driver_dict drv)))"
    by simp
qed

text \<open>
  C3 as stated fails on the example's components under a group named \<open>sub\<close>: the dict
  returned is empty.
\<close>

theorem composite_subtree_counterexample:
  "returned (get_viewer_data example_ext (System (Group (example_group ''sub'') example_subs)))
     = Inr Map.empty
   \<and> ''tree'' \<notin> dom (returned_dict
         (get_viewer_data example_ext (System (Group (example_group ''sub'') example_subs))))"
  by (simp add: get_viewer_data_def example_group_def returned_dict_def)

text \<open>The example as a subtree \<open>sub\<close>, as a root group, and as the model of a problem.\<close>

theorem composite_input_shape_witness:
  "g_pathname (example_group ''sub'') \<noteq> []
   \<and> get_viewer_data example_ext (System (Group (example_group ''sub'') example_subs)) =
        \<lparr> returned = Inr Map.empty, warnings = [],
          source_after = System (Group (example_group ''sub'') example_subs) \<rparr>
   \<and> g_pathname (example_group []) = []
   \<and> (\<exists>d. returned (get_viewer_data example_ext (System (Group (example_group []) example_subs)))
            = Inr d
        \<and> dom d = {''declare_partials_list'', ''responses'', ''design_vars'', ''driver'',
                   ''abs2prom'', ''connections_list'', ''sys_pathnames_list'', ''tree''}
        \<and> returned (get_viewer_data example_ext
             (Problem \<lparr> p_model = Group (example_group []) example_subs,
                        p_driver = example_driver \<rparr>))
            = Inr (d(''driver'' \<mapsto> JDriver (problem_driver_dict example_driver))))"
proof -
  obtain d where
    r: "returned (get_viewer_data example_ext (System (Group (example_group []) example_subs)))
          = Inr d"
    using example_run[unfolded example_root_def] by blast
  have n: "g_pathname (example_group ''sub'') \<noteq> []" by (simp add: example_group_def)
  have e: "g_pathname (example_group []) = []" by (simp add: example_group_def)
  note sub = composite_input_shape[where g = "example_group ''sub''" and subs = example_subs
      and ext = example_ext, THEN conjunct1, rule_format, OF n]
  note root = composite_input_shape[where g = "example_group []" and subs = example_subs
      and ext = example_ext and d = d and drv = example_driver, THEN conjunct2, rule_format,
      OF e r]
  show ?thesis
    by (intro conjI exI[of _ d])
       (rule n sub e r root[THEN conjunct1] root[THEN conjunct2])+
qed


subsection \<open>The window of the cycle arrows\<close>

lemma index_pathname_fst: "\<exists>zs. fst (index_pathname p st) = fst st @ zs"
  by (cases st) (simp add: index_pathname_def)

lemma index_pathname_indexed:
  assumes "indexed st"
  shows "indexed (index_pathname p st)"
proof (cases st)
  case (Pair spl spd)
  show ?thesis
  proof (cases "spd p")
    case (Some i)
    with Pair assms show ?thesis by (simp add: index_pathname_def)
  next
    case None
    from assms Pair have a: "\<And>q i. spd q = Some i \<longleftrightarrow> (i < length spl \<and> spl ! i = q)"
      by (simp add: indexed_def)
    have "\<And>q i. (spd(p \<mapsto> length spl)) q = Some i
             \<longleftrightarrow> (i < length (spl @ [p]) \<and> (spl @ [p]) ! i = q)"
    proof -
      fix q i
      show "(spd(p \<mapsto> length spl)) q = Some i
             \<longleftrightarrow> (i < length (spl @ [p]) \<and> (spl @ [p]) ! i = q)"
      proof (cases "q = p")
        case True
        have "\<not> (i < length spl \<and> spl ! i = p)" using a[of p i] None by simp
        then show ?thesis using True by (auto simp: nth_append less_Suc_eq)
      next
        case False
        then show ?thesis using a[of q i] by (auto simp: nth_append less_Suc_eq)
      qed
    qed
    with Pair None show ?thesis by (simp add: index_pathname_def indexed_def)
  qed
qed

lemma indexed_lookup:
  "indexed st \<Longrightarrow> getitem (snd st) p = Inr i \<Longrightarrow> i < length (fst st) \<and> fst st ! i = p"
  by (simp add: indexed_def getitem_Inr)

lemma arrow_ok_append:
  "arrow_ok spl G sl orders s t ab \<Longrightarrow> arrow_ok (spl @ zs) G sl orders s t ab"
  by (auto simp: arrow_ok_def nth_append)

lemma arrow_ok_more_sccs:
  "arrow_ok spl G sl orders s t ab \<Longrightarrow> set sl \<subseteq> set sl' \<Longrightarrow> arrow_ok spl G sl' orders s t ab"
  unfolding arrow_ok_def by blast


lemma entry_ok_append:
  "entry_ok spl G sl orders c \<Longrightarrow> entry_ok (spl @ zs) G sl orders c"
  unfolding entry_ok_def by (blast intro: arrow_ok_append)

lemma cycle_edges_arrows:
  "cycle_edges s2t es st el = Inr (st', el') \<Longrightarrow> indexed st \<Longrightarrow>
     indexed st' \<and> (\<exists>zs. fst st' = fst st @ zs)
     \<and> (\<exists>new. el' = el @ new
           \<and> (\<forall>ab \<in> set new. fst ab < length (fst st') \<and> snd ab < length (fst st')
                  \<and> (fst st' ! fst ab, fst st' ! snd ab) \<in> set es))"
proof (induction s2t es st el rule: cycle_edges.induct)
  case (1 s2t st el)
  then show ?case by simp
next
  case (2 s2t u v es st el)
  show ?case
  proof (cases "u @ '' '' @ v \<noteq> s2t")
    case False
    with "2.prems"(1) have r: "cycle_edges s2t es st el = Inr (st', el')" by simp
    from "2.IH"(2)[OF False r "2.prems"(2)] obtain zs new where
      h: "indexed st'" "fst st' = fst st @ zs" "el' = el @ new"
      "\<forall>ab \<in> set new. fst ab < length (fst st') \<and> snd ab < length (fst st')
                  \<and> (fst st' ! fst ab, fst st' ! snd ab) \<in> set es"
      by blast
    from h(4) have "\<forall>ab \<in> set new. fst ab < length (fst st') \<and> snd ab < length (fst st')
                  \<and> (fst st' ! fst ab, fst st' ! snd ab) \<in> set ((u, v) # es)"
      by simp
    with h(1,2,3) show ?thesis by blast
  next
    case True
    define x where "x = index_pathname v (index_pathname u st)"
    have ix: "indexed x"
      unfolding x_def by (intro index_pathname_indexed "2.prems"(2))
    obtain z1 where z1: "fst x = fst st @ z1"
      using index_pathname_fst[of u st] index_pathname_fst[of v "index_pathname u st"]
      unfolding x_def by auto
    from "2.prems"(1) True obtain src tgt where
      s: "getitem (snd x) u = Inr src" and t: "getitem (snd x) v = Inr tgt"
      and r: "cycle_edges s2t es x (el @ [(src, tgt)]) = Inr (st', el')"
      by (auto simp: x_def Let_def split: sum.splits)
    from "2.IH"(1)[OF True x_def s t r ix] obtain zs new where
      h: "indexed st'" "fst st' = fst x @ zs" "el' = (el @ [(src, tgt)]) @ new"
      "\<forall>ab \<in> set new. fst ab < length (fst st') \<and> snd ab < length (fst st')
                  \<and> (fst st' ! fst ab, fst st' ! snd ab) \<in> set es"
      by blast
    from indexed_lookup[OF ix s] indexed_lookup[OF ix t]
    have a: "src < length (fst x)" "fst x ! src = u" "tgt < length (fst x)" "fst x ! tgt = v"
      by simp_all
    then have b: "src < length (fst st')" "tgt < length (fst st')"
      "fst st' ! src = u" "fst st' ! tgt = v"
      by (simp_all add: h(2) nth_append)
    have 1: "fst st' = fst st @ (z1 @ zs)" by (simp add: h(2) z1)
    have 2: "el' = el @ ((src, tgt) # new)" by (simp add: h(3))
    have 3: "\<forall>ab \<in> set ((src, tgt) # new). fst ab < length (fst st')
                  \<and> snd ab < length (fst st')
                  \<and> (fst st' ! fst ab, fst st' ! snd ab) \<in> set ((u, v) # es)"
      using h(4) b by simp
    from h(1) 1 2 3 show ?thesis by blast
  qed
qed

lemma window_nodes_in_window:
  assumes "window_nodes orders li (min et es) (max et es) = Inr nodes"
    and "getitem orders tgt = Inr et" and "getitem orders src = Inr es"
    and "p \<in> nodes"
  shows "p \<in> li \<and> in_window orders src tgt p"
proof -
  from assms(1) have n: "\<forall>n \<in> li. orders n \<noteq> None"
    and d: "nodes = {n \<in> li. min et es \<le> the (orders n) \<and> the (orders n) \<le> max et es}"
    by (auto simp: window_nodes_def split: if_splits)
  from assms(4) d have p: "p \<in> li" "min et es \<le> the (orders p)" "the (orders p) \<le> max et es"
    by simp_all
  from n p(1) obtain e where e: "orders p = Some e" by auto
  from assms(2,3) have o: "orders tgt = Some et" "orders src = Some es"
    by (simp_all add: getitem_Inr)
  from p e o show ?thesis by (simp add: in_window_def min.commute max.commute)
qed

lemma subgraph_edges_set:
  "(p, q) \<in> set (subgraph_edges G nodes) \<longleftrightarrow> (p, q) \<in> set G \<and> p \<in> nodes \<and> q \<in> nodes"
  by (auto simp: subgraph_edges_def)

lemma scc_loop_arrows:
  "scc_loop G orders src tgt lis count st el = Inr (st', el') \<Longrightarrow> indexed st \<Longrightarrow>
     indexed st' \<and> (\<exists>zs. fst st' = fst st @ zs)
     \<and> (\<exists>new. el' = el @ new
           \<and> (\<forall>ab \<in> set new. arrow_ok (fst st') G lis orders src tgt ab))"
proof (induction G orders src tgt lis count st el rule: scc_loop.induct)
  case (1 G orders src tgt count st el)
  then show ?case by simp
next
  case (2 G orders src tgt li lis count st el)
  show ?case
  proof (cases "src \<in> li \<and> tgt \<in> li")
    case False
    from "2.prems"(1) have r: "scc_loop G orders src tgt lis count st el = Inr (st', el')"
      by (simp only: scc_loop_skip[OF False])
    from "2.IH"(2)[OF False r "2.prems"(2)] obtain zs new where
      h: "indexed st'" "fst st' = fst st @ zs" "el' = el @ new"
      "\<forall>ab \<in> set new. arrow_ok (fst st') G lis orders src tgt ab"
      by blast
    from h(4) have "\<forall>ab \<in> set new. arrow_ok (fst st') G (li # lis) orders src tgt ab"
      by (auto intro: arrow_ok_more_sccs)
    with h(1,2,3) show ?thesis by blast
  next
    case True
    then have m: "src \<in> li" "tgt \<in> li" by simp_all
    from "2.prems"(1) True have c: "\<not> 1 < count + 1"
      by (auto split: if_splits)
    with "2.prems"(1) True obtain et es nodes st1 el1 where
      gt: "getitem orders tgt = Inr et" and gs: "getitem orders src = Inr es"
      and wn: "window_nodes orders li (min et es) (max et es) = Inr nodes"
      and ce: "cycle_edges (src @ '' '' @ tgt) (subgraph_edges G nodes) st el = Inr (st1, el1)"
      and r: "scc_loop G orders src tgt lis (count + 1) st1 el1 = Inr (st', el')"
      by (auto split: sum.splits if_splits)
    from cycle_edges_arrows[OF ce "2.prems"(2)] obtain z1 new1 where
      h1: "indexed st1" "fst st1 = fst st @ z1" "el1 = el @ new1"
      "\<forall>ab \<in> set new1. fst ab < length (fst st1) \<and> snd ab < length (fst st1)
          \<and> (fst st1 ! fst ab, fst st1 ! snd ab) \<in> set (subgraph_edges G nodes)"
      by blast
    from "2.IH"(1)[OF True c gt gs wn ce refl r h1(1)] obtain z2 new2 where
      h2: "indexed st'" "fst st' = fst st1 @ z2" "el' = el1 @ new2"
      "\<forall>ab \<in> set new2. arrow_ok (fst st') G lis orders src tgt ab"
      by blast
    have a1: "\<forall>ab \<in> set new1. arrow_ok (fst st1) G (li # lis) orders src tgt ab"
    proof
      fix ab assume "ab \<in> set new1"
      with h1(4) have l: "fst ab < length (fst st1)" "snd ab < length (fst st1)"
        and e: "(fst st1 ! fst ab, fst st1 ! snd ab) \<in> set (subgraph_edges G nodes)"
        by simp_all
      from e have g: "(fst st1 ! fst ab, fst st1 ! snd ab) \<in> set G"
        and n1: "fst st1 ! fst ab \<in> nodes" and n2: "fst st1 ! snd ab \<in> nodes"
        by (simp_all add: subgraph_edges_set)
      from window_nodes_in_window[OF wn gt gs n1] window_nodes_in_window[OF wn gt gs n2] l g m
      show "arrow_ok (fst st1) G (li # lis) orders src tgt ab"
        by (auto simp: arrow_ok_def)
    qed
    have a2: "\<forall>ab \<in> set new1. arrow_ok (fst st') G (li # lis) orders src tgt ab"
      using a1 unfolding h2(2) by (blast intro: arrow_ok_append)
    from h2(4) have a3: "\<forall>ab \<in> set new2. arrow_ok (fst st') G (li # lis) orders src tgt ab"
      by (auto intro: arrow_ok_more_sccs)
    have 1: "fst st' = fst st @ (z1 @ z2)" by (simp add: h1(2) h2(2))
    have 2: "el' = el @ (new1 @ new2)" by (simp add: h1(3) h2(3))
    from a2 a3 have 3: "\<forall>ab \<in> set (new1 @ new2). arrow_ok (fst st') G (li # lis) orders src tgt ab"
      by auto
    from h2(1) 1 2 3 show ?thesis by blast
  qed
qed


lemma emit_connection_arrows:
  "conn_cycle_arrows (emit_connection out_abs in_abs el) = Some es \<Longrightarrow> set es = set el"
  by (auto simp: emit_connection_def split: if_splits)

lemma connections_loop_arrows:
  "connections_loop G sl orders items st cl = Inr (st', cl') \<Longrightarrow> indexed st \<Longrightarrow>
     (\<forall>c \<in> set cl. entry_ok (fst st) G sl orders c) \<Longrightarrow>
     indexed st' \<and> (\<forall>c \<in> set cl'. entry_ok (fst st') G sl orders c)"
proof (induction G sl orders items st cl rule: connections_loop.induct)
  case (1 G sl orders st cl)
  then show ?case by simp
next
  case (2 G sl orders in_abs items st cl)
  then show ?case by simp
next
  case (3 G sl orders in_abs out_abs items st cl)
  from "3.prems"(1) obtain st1 el where
    s: "scc_loop G orders (rsplit_head out_abs) (rsplit_head in_abs) sl 0 st [] = Inr (st1, el)"
    and r: "connections_loop G sl orders items st1 (cl @ [emit_connection out_abs in_abs el])
              = Inr (st', cl')"
    by (auto split: sum.splits)
  from scc_loop_arrows[OF s "3.prems"(2)] obtain zs where
    h: "indexed st1" "fst st1 = fst st @ zs"
    "\<forall>ab \<in> set el. arrow_ok (fst st1) G sl orders (rsplit_head out_abs) (rsplit_head in_abs) ab"
    by auto
  have old: "\<forall>c \<in> set cl. entry_ok (fst st1) G sl orders c"
    using "3.prems"(3) unfolding h(2) by (blast intro: entry_ok_append)
  have new: "entry_ok (fst st1) G sl orders (emit_connection out_abs in_abs el)"
    unfolding entry_ok_def using h(3) by (auto dest: emit_connection_arrows)
  from old new have "\<forall>c \<in> set (cl @ [emit_connection out_abs in_abs el]).
      entry_ok (fst st1) G sl orders c" by simp
  from "3.IH"[OF s refl r h(1) this] show ?case .
qed

lemma indexed_empty: "indexed ([], Map.empty)"
  by (simp add: indexed_def)

lemma viewer_arrows:
  assumes "root_group_of ds = Some (g, subs)"
      and "returned (get_viewer_data ext ds) = Inr d"
      and "get_tree_dict (Group g subs) Map.empty 0 False = Inr (tree, orders, idx)"
      and "c \<in> set (connections_of d)"
  shows "entry_ok (pathnames_of d)
           (compute_sys_graph ext
              (Group (g\<lparr> g_conn_global_abs_in2out := sort (g_conn_global_abs_in2out g) \<rparr>) subs))
           (filter (\<lambda>s. card s > 1) (strongly_connected_components ext (compute_sys_graph ext
              (Group (g\<lparr> g_conn_global_abs_in2out := sort (g_conn_global_abs_in2out g) \<rparr>) subs))))
           orders c"
proof -
  from get_viewer_data_root[OF assms(1), of ext] assms(2)
  have "fst (root_viewer_data ext g subs (driver_dict_of ds)) = Inr d" by simp
  then obtain r where
    "root_viewer_data ext g subs (driver_dict_of ds) = (Inr d, r)"
    by (cases "root_viewer_data ext g subs (driver_dict_of ds)") simp
  then obtain tree' orders' idx' spl spd where
    t: "get_tree_dict (Group g subs) Map.empty 0 False = Inr (tree', orders', idx')"
    and l: "connections_loop
        (compute_sys_graph ext
           (Group (g\<lparr> g_conn_global_abs_in2out := sort (g_conn_global_abs_in2out g) \<rparr>) subs))
        (filter (\<lambda>s. card s > 1) (strongly_connected_components ext (compute_sys_graph ext
           (Group (g\<lparr> g_conn_global_abs_in2out := sort (g_conn_global_abs_in2out g) \<rparr>) subs))))
        orders' (sort (g_conn_global_abs_in2out g)) ([], Map.empty) []
      = Inr ((spl, spd), connections_of d)"
    and p: "pathnames_of d = spl"
    by (rule root_viewer_data_Inr)
  from t assms(3) have o: "orders' = orders" by simp
  from connections_loop_arrows[OF l indexed_empty] assms(4)
  show ?thesis unfolding o p by simp
qed

text \<open>
  C5. In a returned snapshot of a root group, every cycle arrow \<open>(a, b)\<close> of an entry
  points at two path names of \<^verbatim>\<open>sys_pathnames_list\<close> that both lie in one set of
  \<^verbatim>\<open>scc_list\<close> together with the owners of the entry's source and target, and whose
  execution orders both lie in the closed interval between the execution orders of
  these two owners.
\<close>

theorem cycle_arrows_in_window:
  assumes "root_group_of ds = Some (g, subs)"
      and "returned (get_viewer_data ext ds) = Inr d"
      and "get_tree_dict (Group g subs) Map.empty 0 False = Inr (tree, orders, idx)"
      and "scc_list = filter (\<lambda>s. card s > 1) (strongly_connected_components ext
             (compute_sys_graph ext (Group
                (g\<lparr> g_conn_global_abs_in2out := sort (g_conn_global_abs_in2out g) \<rparr>) subs)))"
      and "c \<in> set (connections_of d)"
      and "conn_cycle_arrows c = Some es"
      and "(a, b) \<in> set es"
  shows "a < length (pathnames_of d) \<and> b < length (pathnames_of d)
       \<and> (\<exists>li \<in> set scc_list.
             rsplit_head (conn_src c) \<in> li \<and> rsplit_head (conn_tgt c) \<in> li
           \<and> pathnames_of d ! a \<in> li \<and> pathnames_of d ! b \<in> li)
       \<and> in_window orders (rsplit_head (conn_src c)) (rsplit_head (conn_tgt c))
            (pathnames_of d ! a)
       \<and> in_window orders (rsplit_head (conn_src c)) (rsplit_head (conn_tgt c))
            (pathnames_of d ! b)"
proof -
  from viewer_arrows[OF assms(1,2,3,5)] assms(6,7)
  have "arrow_ok (pathnames_of d)
          (compute_sys_graph ext (Group
                (g\<lparr> g_conn_global_abs_in2out := sort (g_conn_global_abs_in2out g) \<rparr>) subs))
          scc_list orders (rsplit_head (conn_src c)) (rsplit_head (conn_tgt c)) (a, b)"
    unfolding entry_ok_def assms(4) by blast
  then show ?thesis by (simp add: arrow_ok_def)
qed


text \<open>
  The example: the arrow \<open>(0, 1)\<close> of the entry for \<open>A.x\<close> points at \<open>A\<close> and \<open>B\<close>, of
  orders 0 and 1, the orders of the owners of \<open>A.x\<close> and \<open>B.y\<close>.
\<close>

theorem cycle_arrows_in_window_witness:
  "root_group_of (System example_root) = Some (example_group [], example_subs)
   \<and> (\<exists>d tree orders idx c.
         returned (get_viewer_data example_ext (System example_root)) = Inr d
       \<and> get_tree_dict (Group (example_group []) example_subs) Map.empty 0 False
           = Inr (tree, orders, idx)
       \<and> c \<in> set (connections_of d)
       \<and> conn_src c = ''B.y'' \<and> conn_tgt c = ''A.x''
       \<and> conn_cycle_arrows c = Some [(0, 1)]
       \<and> (0, 1) \<in> set [(0 :: nat, 1 :: nat)]
       \<and> pathnames_of d = [''A'', ''B'']
       \<and> 0 < length (pathnames_of d) \<and> 1 < length (pathnames_of d)
       \<and> in_window orders (rsplit_head (conn_src c)) (rsplit_head (conn_tgt c))
            (pathnames_of d ! 0)
       \<and> in_window orders (rsplit_head (conn_src c)) (rsplit_head (conn_tgt c))
            (pathnames_of d ! 1))"
proof -
  obtain d where r: "returned (get_viewer_data example_ext (System example_root)) = Inr d"
    and cl: "connections_of d =
       [\<lparr>conn_src = ''B.y'', conn_tgt = ''A.x'', conn_cycle_arrows = Some [(0, 1)]\<rparr>,
        \<lparr>conn_src = ''A.y'', conn_tgt = ''B.x'', conn_cycle_arrows = Some [(1, 0)]\<rparr>,
        \<lparr>conn_src = ''B.y'', conn_tgt = ''C.x'', conn_cycle_arrows = None\<rparr>]"
    and p: "pathnames_of d = [''A'', ''B'']"
    by (rule example_run)
  from example_tree_built obtain t where
    "get_tree_dict (Group (example_group []) example_subs) Map.empty 0 False = Inr t" ..
  then obtain tree orders idx where
    t: "get_tree_dict (Group (example_group []) example_subs) Map.empty 0 False
          = Inr (tree, orders, idx)"
    by (cases t) auto
  let ?c = "\<lparr>conn_src = ''B.y'', conn_tgt = ''A.x'', conn_cycle_arrows = Some [(0, 1)]\<rparr>"
  have m: "?c \<in> set (connections_of d)" by (simp add: cl)
  have s: "conn_src ?c = ''B.y''" and g: "conn_tgt ?c = ''A.x''"
    and a: "conn_cycle_arrows ?c = Some [(0, 1)]" by simp_all
  have e: "(0, 1) \<in> set [(0 :: nat, 1 :: nat)]" by simp
  note th = cycle_arrows_in_window[OF example_root_group r t refl m a e]
  from th have 1: "0 < length (pathnames_of d)" by (rule conjunct1)
  from th have 2: "1 < length (pathnames_of d)" by (elim conjE)
  from th have 3: "in_window orders (rsplit_head (conn_src ?c)) (rsplit_head (conn_tgt ?c))
            (pathnames_of d ! 0)" by (elim conjE)
  from th have 4: "in_window orders (rsplit_head (conn_src ?c)) (rsplit_head (conn_tgt ?c))
            (pathnames_of d ! 1)" by (elim conjE)
  show ?thesis
    by (intro conjI exI[of _ d] exI[of _ tree] exI[of _ orders] exI[of _ idx] exI[of _ ?c])
       (rule example_root_group r t m s g a e p 1 2 3 4)+
qed


end
